theory Spec2Isabelle
  imports Complex_Main "HOL-Library.AList"
begin

unbundle bit_operations_syntax

section \<open>Python strings\<close>

text \<open>
  A Python \<open>str\<close> is modelled as \<open>string\<close>: a list of 8-bit characters, each read as
  the code point of the same number (U+0000 to U+00FF), so \<open>length\<close> is Python's
  \<open>len\<close>. Exceptions are values of \<open>pyerr\<close>; a computation that can raise returns
  \<open>pyerr + 'a\<close> with \<open>Inl\<close> for the exception.
\<close>

datatype pyerr = ValueError string | ReError string | AttributeError string | ParserError string


definition BS :: char where
  "BS = CHR 0x5C"

definition code_of :: "char \<Rightarrow> nat" where
  "code_of c = of_char c"

definition is_digit :: "char \<Rightarrow> bool" where
  "is_digit c = (48 \<le> code_of c \<and> code_of c \<le> 57)"

definition is_ascii_alpha :: "char \<Rightarrow> bool" where
  "is_ascii_alpha c = ((65 \<le> code_of c \<and> code_of c \<le> 90) \<or> (97 \<le> code_of c \<and> code_of c \<le> 122))"

text \<open>\<open>str.isspace\<close> on one character of the range U+0000 to U+00FF.\<close>

definition is_space :: "char \<Rightarrow> bool" where
  "is_space c = (code_of c \<in> {9, 10, 11, 12, 13, 28, 29, 30, 31, 32, 133, 160})"

text \<open>\<open>str.lower\<close>: A-Z and the upper-case letters of U+00C0 to U+00DE move by 32.\<close>

definition lower_char :: "char \<Rightarrow> char" where
  "lower_char c =
     (let n = code_of c
      in if (65 \<le> n \<and> n \<le> 90) \<or> (192 \<le> n \<and> n \<le> 222 \<and> n \<noteq> 215)
         then char_of (n + 32) else c)"

definition lower :: "string \<Rightarrow> string" where
  "lower s = map lower_char s"

text \<open>\<open>s.startswith(p)\<close>, \<open>s.endswith(p)\<close> and \<open>p in s\<close>.\<close>

fun startswith :: "string \<Rightarrow> string \<Rightarrow> bool" where
  "startswith s [] = True"
| "startswith [] (p # ps) = False"
| "startswith (c # cs) (p # ps) = (c = p \<and> startswith cs ps)"

definition endswith :: "string \<Rightarrow> string \<Rightarrow> bool" where
  "endswith s p = startswith (rev s) (rev p)"

fun contains :: "string \<Rightarrow> string \<Rightarrow> bool" where
  "contains [] p = (p = [])"
| "contains (c # cs) p = (startswith (c # cs) p \<or> contains cs p)"

text \<open>\<open>s.split(sep)\<close> for a one-character separator: every occurrence splits.\<close>

fun split_on :: "char \<Rightarrow> string \<Rightarrow> string list" where
  "split_on sep [] = [[]]"
| "split_on sep (c # cs) =
     (if c = sep then [] # split_on sep cs
      else (case split_on sep cs of
              [] \<Rightarrow> [[c]]
            | w # ws \<Rightarrow> (c # w) # ws))"

text \<open>\<open>s.split(sep, 1)\<close> as the pair (before, after) of the first occurrence, when there is one.\<close>

fun partition_first :: "char \<Rightarrow> string \<Rightarrow> (string \<times> string) option" where
  "partition_first sep [] = None"
| "partition_first sep (c # cs) =
     (if c = sep then Some ([], cs)
      else map_option (\<lambda>(a, b). (c # a, b)) (partition_first sep cs))"

text \<open>\<open>s.rsplit(sep, 1)\<close> as the pair around the last occurrence.\<close>

definition partition_last :: "char \<Rightarrow> string \<Rightarrow> (string \<times> string) option" where
  "partition_last sep s =
     map_option (\<lambda>(a, b). (rev b, rev a)) (partition_first sep (rev s))"

text \<open>\<open>s.strip()\<close> and \<open>s.split()\<close> on whitespace.\<close>

definition strip :: "string \<Rightarrow> string" where
  "strip s = rev (dropWhile is_space (rev (dropWhile is_space s)))"

fun split_ws_aux :: "string \<Rightarrow> string \<Rightarrow> string list" where
  "split_ws_aux w [] = (if w = [] then [] else [rev w])"
| "split_ws_aux w (c # cs) =
     (if is_space c then (if w = [] then split_ws_aux [] cs else rev w # split_ws_aux [] cs)
      else split_ws_aux (c # w) cs)"

definition split_ws :: "string \<Rightarrow> string list" where
  "split_ws s = split_ws_aux [] s"

text \<open>\<open>sep.join(xs)\<close>.\<close>

fun join :: "string \<Rightarrow> string list \<Rightarrow> string" where
  "join sep [] = []"
| "join sep [x] = x"
| "join sep (x # y # ys) = x @ sep @ join sep (y # ys)"

text \<open>\<open>int(s)\<close> for a str: surrounding whitespace, an optional sign, decimal digits with
  single underscores between them. Anything else raises ValueError (\<open>None\<close>). An ASCII
  string is read as it is and only the ASCII whitespace characters are skipped at its
  ends; in a string with a character beyond ASCII every whitespace character first
  becomes a space.\<close>

definition is_ascii_space :: "char \<Rightarrow> bool" where
  "is_ascii_space c = (code_of c \<in> {9, 10, 11, 12, 13, 32})"

fun digits_value :: "nat \<Rightarrow> string \<Rightarrow> nat option" where
  "digits_value acc [] = Some acc"
| "digits_value acc [c] = (if is_digit c then Some (10 * acc + (code_of c - 48)) else None)"
| "digits_value acc (c # d # cs) =
     (if is_digit c then
        (if d = CHR ''_'' then (if cs = [] then None else digits_value (10 * acc + (code_of c - 48)) cs)
         else digits_value (10 * acc + (code_of c - 48)) (d # cs))
      else None)"

definition py_int :: "string \<Rightarrow> int option" where
  "py_int s =
     (let t = (if list_all (\<lambda>c. code_of c < 128) s then s
               else map (\<lambda>c. if is_space c then CHR '' '' else c) s)
      in case rev (dropWhile is_ascii_space (rev (dropWhile is_ascii_space t))) of
           [] \<Rightarrow> None
         | c # cs \<Rightarrow>
             if c = CHR ''-'' then (if cs = [] then None else map_option (\<lambda>n. - int n) (digits_value 0 cs))
             else if c = CHR ''+'' then (if cs = [] then None else map_option int (digits_value 0 cs))
             else map_option int (digits_value 0 (c # cs)))"

text \<open>Order of strings by code points, and \<open>sorted\<close> as insertion sort.\<close>

fun str_le :: "string \<Rightarrow> string \<Rightarrow> bool" where
  "str_le [] t = True"
| "str_le (c # cs) [] = False"
| "str_le (c # cs) (d # ds) = (code_of c < code_of d \<or> (c = d \<and> str_le cs ds))"

fun insort_str :: "string \<Rightarrow> string list \<Rightarrow> string list" where
  "insort_str x [] = [x]"
| "insort_str x (y # ys) = (if str_le x y then x # y # ys else y # insort_str x ys)"

definition sorted_strs :: "string list \<Rightarrow> string list" where
  "sorted_strs xs = foldr insort_str xs []"

section \<open>Regular expressions of the \<open>re\<close> module\<close>

text \<open>
  The fragment of the pattern language that the source's patterns use: literal
  characters, \<open>.\<close>, a backslash escape, a character class \<open>[...]\<close> without ranges, the
  quantifiers \<open>?\<close>, \<open>*\<close>, \<open>+\<close> and \<open>{n}\<close> after one atom, and \<open>$\<close>. A backslash
  followed by a backslash is a literal backslash; a backslash followed by \<open>d\<close> is a
  digit and by \<open>s\<close> a whitespace character. \<open>re_compile\<close> reads the text of the
  pattern, as \<open>re.compile\<close> does with the characters of a raw string literal.
\<close>

datatype atom = Lit char | AnyChar | Digit | Space | Cls "char list"

datatype quant = One | Opt | Star

datatype item = Atom atom quant | Eol

definition is_special :: "char \<Rightarrow> bool" where
  "is_special c = (c \<in> set ''*+?{}()|^$[]'')"

fun parse_atom :: "string \<Rightarrow> (atom \<times> string) option" where
  "parse_atom [] = None"
| "parse_atom (c # cs) =
     (if c = BS then
        (case cs of
           [] \<Rightarrow> None
         | e # r \<Rightarrow>
             if e = CHR ''d'' then Some (Digit, r)
             else if e = CHR ''s'' then Some (Space, r)
             else if is_ascii_alpha e \<or> is_digit e then None
             else Some (Lit e, r))
      else if c = CHR ''['' then
        (case partition_first (CHR '']'') cs of
           None \<Rightarrow> None
         | Some (body, r) \<Rightarrow>
             if body = [] \<or> BS \<in> set body \<or> CHR ''-'' \<in> set body \<or> CHR ''^'' \<in> set body \<or> CHR ''['' \<in> set body
             then None else Some (Cls body, r))
      else if c = CHR ''.'' then Some (AnyChar, cs)
      else if is_special c then None
      else Some (Lit c, cs))"

text \<open>The quantifier after an atom; \<open>a+\<close> is \<open>a\<close> then \<open>a*\<close>, \<open>a{n}\<close> is \<open>n\<close> copies.\<close>

definition parse_quant :: "atom \<Rightarrow> string \<Rightarrow> (item list \<times> string) option" where
  "parse_quant a s =
     (case s of
        [] \<Rightarrow> Some ([Atom a One], [])
      | q # r \<Rightarrow>
          if q = CHR ''?'' then Some ([Atom a Opt], r)
          else if q = CHR ''*'' then Some ([Atom a Star], r)
          else if q = CHR ''+'' then Some ([Atom a One, Atom a Star], r)
          else if q = CHR ''{'' then
            (case partition_first (CHR ''}'') r of
               None \<Rightarrow> None
             | Some (num, r') \<Rightarrow>
                 if num = [] \<or> \<not> list_all is_digit num then None
                 else (case digits_value 0 num of
                         None \<Rightarrow> None
                       | Some n \<Rightarrow> Some (replicate n (Atom a One), r')))
          else Some ([Atom a One], q # r))"

fun re_compile_fuel :: "nat \<Rightarrow> string \<Rightarrow> item list option" where
  "re_compile_fuel 0 s = (if s = [] then Some [] else None)"
| "re_compile_fuel (Suc k) s =
     (case s of
        [] \<Rightarrow> Some []
      | c # cs \<Rightarrow>
          if c = CHR ''$'' then map_option (\<lambda>r. Eol # r) (re_compile_fuel k cs)
          else (case parse_atom (c # cs) of
                  None \<Rightarrow> None
                | Some (a, r) \<Rightarrow>
                    (case parse_quant a r of
                       None \<Rightarrow> None
                     | Some (its, r') \<Rightarrow> map_option (\<lambda>t. its @ t) (re_compile_fuel k r'))))"

text \<open>Every step consumes a character, so the length of the pattern is fuel enough.\<close>

definition re_compile :: "string \<Rightarrow> item list option" where
  "re_compile p = re_compile_fuel (length p) p"

definition atom_matches :: "atom \<Rightarrow> char \<Rightarrow> bool" where
  "atom_matches a c =
     (case a of
        Lit l \<Rightarrow> c = l
      | AnyChar \<Rightarrow> c \<noteq> CHR 0x0A
      | Digit \<Rightarrow> is_digit c
      | Space \<Rightarrow> is_space c
      | Cls cs \<Rightarrow> c \<in> set cs)"

text \<open>The length of the match that the backtracking matcher finds at the start of the
  text: a greedy quantifier first tries one more repetition.\<close>

fun rmatch :: "item list \<Rightarrow> string \<Rightarrow> nat option" where
  "rmatch [] s = Some 0"
| "rmatch (Eol # r) s = (if s = [] \<or> s = [CHR 0x0A] then rmatch r s else None)"
| "rmatch (Atom a One # r) [] = None"
| "rmatch (Atom a One # r) (c # cs) =
     (if atom_matches a c then map_option Suc (rmatch r cs) else None)"
| "rmatch (Atom a Opt # r) [] = rmatch r []"
| "rmatch (Atom a Opt # r) (c # cs) =
     (case (if atom_matches a c then map_option Suc (rmatch r cs) else None) of
        Some n \<Rightarrow> Some n
      | None \<Rightarrow> rmatch r (c # cs))"
| "rmatch (Atom a Star # r) [] = rmatch r []"
| "rmatch (Atom a Star # r) (c # cs) =
     (case (if atom_matches a c then map_option Suc (rmatch (Atom a Star # r) cs) else None) of
        Some n \<Rightarrow> Some n
      | None \<Rightarrow> rmatch r (c # cs))"

fun search_items :: "item list \<Rightarrow> string \<Rightarrow> bool" where
  "search_items p [] = (rmatch p [] \<noteq> None)"
| "search_items p (c # cs) = (rmatch p (c # cs) \<noteq> None \<or> search_items p cs)"

text \<open>\<open>re.search(p, s)\<close> as a truth value; a pattern that does not compile raises.\<close>

definition re_search :: "string \<Rightarrow> string \<Rightarrow> pyerr + bool" where
  "re_search p s =
     (case re_compile p of None \<Rightarrow> Inl (ReError ''bad pattern'') | Some its \<Rightarrow> Inr (search_items its s))"

text \<open>\<open>re.sub(p, repl, s)\<close>: leftmost matches, not overlapping; an empty match is
  replaced and the next character copied.\<close>

fun sub_items :: "item list \<Rightarrow> string \<Rightarrow> string \<Rightarrow> string" where
  "sub_items p repl [] = (if rmatch p [] \<noteq> None then repl else [])"
| "sub_items p repl (c # cs) =
     (case rmatch p (c # cs) of
        None \<Rightarrow> c # sub_items p repl cs
      | Some n \<Rightarrow>
          if n = 0 then repl @ c # sub_items p repl cs
          else repl @ sub_items p repl (drop (n - 1) cs))"

definition re_sub :: "string \<Rightarrow> string \<Rightarrow> string \<Rightarrow> pyerr + string" where
  "re_sub p repl s =
     (case re_compile p of None \<Rightarrow> Inl (ReError ''bad pattern'') | Some its \<Rightarrow> Inr (sub_items its repl s))"

text \<open>\<open>any(re.search(p, s) for p in ps)\<close>: stops at the first match.\<close>

fun re_any :: "string list \<Rightarrow> string \<Rightarrow> pyerr + bool" where
  "re_any [] s = Inr False"
| "re_any (p # ps) s =
     (case re_search p s of
        Inl e \<Rightarrow> Inl e
      | Inr b \<Rightarrow> if b then Inr True else re_any ps s)"

section \<open>\<open>urllib.parse\<close>\<close>

text \<open>
  \<open>urlparse\<close> as CPython 3.10 defines it, on strings of the modelled range: the
  characters tab, CR and LF are removed, the scheme is split off when the text before
  the first colon is a scheme, the network location runs from \<open>//\<close> to the first of
  \<open>/?#\<close>, and a location with one square bracket but not the other raises ValueError.
  The check of the location under NFKC normalisation never raises on this character
  range and is left out.
\<close>

record parse_result =
  scheme :: string
  netloc :: string
  path :: string
  params :: string
  query :: string
  fragment :: string

definition scheme_chars :: "char \<Rightarrow> bool" where
  "scheme_chars c = (is_ascii_alpha c \<or> is_digit c \<or> c \<in> set ''+-.'')"

definition uses_params :: "string list" where
  "uses_params = ['''', ''ftp'', ''hdl'', ''prospero'', ''http'', ''imap'', ''https'', ''shttp'',
     ''rtsp'', ''rtspu'', ''sip'', ''sips'', ''mms'', ''sftp'', ''tel'']"

text \<open>\<open>_splitnetloc(url, 2)\<close>: the location ends at the first of \<open>/?#\<close>.\<close>

definition splitnetloc :: "string \<Rightarrow> string \<times> string" where
  "splitnetloc url =
     (let rest = drop 2 url;
          nl = takeWhile (\<lambda>c. c \<notin> set ''/?#'') rest
      in (nl, drop (length nl) rest))"

definition split_scheme :: "string \<Rightarrow> string \<times> string" where
  "split_scheme url =
     (case partition_first (CHR '':'') url of
        None \<Rightarrow> ('''', url)
      | Some (pre, post) \<Rightarrow>
          if pre \<noteq> [] \<and> is_ascii_alpha (hd pre) \<and> list_all scheme_chars pre
          then (lower pre, post) else ('''', url))"

text \<open>The characters of \<open>_UNSAFE_URL_BYTES_TO_REMOVE\<close> (tab, CR, LF) are removed.\<close>

definition remove_unsafe :: "string \<Rightarrow> string" where
  "remove_unsafe url = filter (\<lambda>c. c \<notin> {CHR 0x09, CHR 0x0D, CHR 0x0A}) url"

definition urlsplit :: "string \<Rightarrow> pyerr + (string \<times> string \<times> string \<times> string \<times> string)" where
  "urlsplit url0 =
     (let url1 = remove_unsafe url0;
          (sch, url2) = split_scheme url1;
          (nl, url3) = (if take 2 url2 = ''//'' then splitnetloc url2 else ('''', url2))
      in if (CHR ''['' \<in> set nl \<and> CHR '']'' \<notin> set nl) \<or> (CHR '']'' \<in> set nl \<and> CHR ''['' \<notin> set nl)
         then Inl (ValueError ''Invalid IPv6 URL'')
         else
           (let (url4, frag) = (case partition_first (CHR ''#'') url3 of
                                  None \<Rightarrow> (url3, '''') | Some (a, b) \<Rightarrow> (a, b));
                (url5, qry) = (case partition_first (CHR ''?'') url4 of
                                 None \<Rightarrow> (url4, '''') | Some (a, b) \<Rightarrow> (a, b))
            in Inr (sch, nl, url5, qry, frag)))"

text \<open>\<open>_splitparams\<close>: the parameters start at the first \<open>;\<close> of the last path segment.\<close>

definition splitparams :: "string \<Rightarrow> string \<times> string" where
  "splitparams url =
     (case partition_last (CHR ''/'') url of
        Some (dir, seg) \<Rightarrow>
          (case partition_first (CHR '';'') seg of
             None \<Rightarrow> (url, '''')
           | Some (a, b) \<Rightarrow> (dir @ ''/'' @ a, b))
      | None \<Rightarrow>
          (case partition_first (CHR '';'') url of
             None \<Rightarrow> (url, '''')
           | Some (a, b) \<Rightarrow> (a, b)))"

definition urlparse :: "string \<Rightarrow> pyerr + parse_result" where
  "urlparse url =
     (case urlsplit url of
        Inl e \<Rightarrow> Inl e
      | Inr (sch, nl, u, qry, frag) \<Rightarrow>
          (let (p, prm) = (if sch \<in> set uses_params \<and> CHR '';'' \<in> set u then splitparams u else (u, ''''))
           in Inr \<lparr>scheme = sch, netloc = nl, path = p, params = prm, query = qry, fragment = frag\<rparr>))"

text \<open>
  The library functions that are not modelled are parameters of the model: percent
  decoding (its results can leave the modelled character range), Python's built-in string
  hash (seeded per process), MD5, the helpers \<open>normalize\<close> and \<open>get_urlhash\<close> of the
  package \<open>utils\<close>, \<open>urljoin\<close> and \<open>urldefrag\<close>, the HTML parser, and the iteration
  order of a set of strings.
\<close>

datatype node = Text string | Tag string "(string \<times> string) list" "node list"

record env =
  unquote_pct :: "string \<Rightarrow> string"
  py_hash :: "string \<Rightarrow> int"
  md5_hex :: "string \<Rightarrow> string"
  normalize :: "string \<Rightarrow> string"
  get_urlhash :: "string \<Rightarrow> string"
  urljoin :: "string \<Rightarrow> string \<Rightarrow> pyerr + string"
  urldefrag :: "string \<Rightarrow> pyerr + string"
  BeautifulSoup :: "string \<Rightarrow> pyerr + node list"
  list_of_set :: "string list \<Rightarrow> string list"

text \<open>\<open>unquote\<close> returns a string without \<open>%\<close> as it is.\<close>

definition unquote :: "env \<Rightarrow> string \<Rightarrow> string" where
  "unquote E s = (if CHR ''%'' \<notin> set s then s else unquote_pct E s)"

definition replace_plus :: "string \<Rightarrow> string" where
  "replace_plus s = map (\<lambda>c. if c = CHR ''+'' then CHR '' '' else c) s"

text \<open>\<open>parse_qsl(qs)\<close> with its defaults: fields are separated by \<open>&\<close>; a field without
  \<open>=\<close> or with an empty value is dropped.\<close>

definition parse_qsl :: "env \<Rightarrow> string \<Rightarrow> (string \<times> string) list" where
  "parse_qsl E qs =
     concat (map (\<lambda>name_value.
        (case partition_first (CHR ''='') name_value of
           None \<Rightarrow> []
         | Some (n, v) \<Rightarrow>
             if v \<noteq> [] then [(unquote E (replace_plus n), unquote E (replace_plus v))] else []))
       (split_on (CHR ''&'') qs))"

text \<open>\<open>parse_qs(qs)\<close>: the dict from a name to the list of its values, in insertion order.\<close>

definition parse_qs :: "env \<Rightarrow> string \<Rightarrow> (string \<times> string list) list" where
  "parse_qs E qs =
     foldl (\<lambda>d (n, v).
        (case map_of d n of
           Some vs \<Rightarrow> AList.update n (vs @ [v]) d
         | None \<Rightarrow> d @ [(n, [v])]))
       [] (parse_qsl E qs)"

section \<open>The scraper module: configuration and global state\<close>

definition VALID_DOMAINS :: "string list" where
  "VALID_DOMAINS = [''ics.uci.edu'', ''cs.uci.edu'', ''informatics.uci.edu'', ''stat.uci.edu'']"



definition MAX_PATH_DEPTH :: nat where
  "MAX_PATH_DEPTH = 12"

definition MAX_URL_LENGTH :: nat where
  "MAX_URL_LENGTH = 600"

definition SIMHASH_THRESHOLD :: nat where
  "SIMHASH_THRESHOLD = 10"

definition SIMHASH_WINDOW :: nat where
  "SIMHASH_WINDOW = 1000"

definition INVALID_EXTENSIONS :: "string list" where
  "INVALID_EXTENSIONS =
     [''pdf'', ''doc'', ''docx'', ''ppt'', ''pptx'', ''xls'', ''xlsx'',
      ''txt'', ''rtf'', ''odt'', ''ods'', ''odp'',
      ''zip'', ''rar'', ''tar'', ''gz'', ''7z'', ''bz2'',
      ''jpg'', ''jpeg'', ''png'', ''gif'', ''bmp'', ''svg'', ''ico'', ''webp'',
      ''mp4'', ''avi'', ''mov'', ''mpg'', ''mpeg'', ''flv'',
      ''mp3'', ''wav'', ''wma'', ''aac'',
      ''css'', ''js'', ''json'', ''xml'', ''rss'', ''atom'', ''csv'',
      ''lif'', ''mat'', ''dat'', ''rdata'', ''rds'',
      ''arff'', ''weka'', ''sav'', ''pkl'', ''pickle'',
      ''log'', ''bak'', ''tmp'']"

definition ALLOWED_EXTENSIONS :: "string list" where
  "ALLOWED_EXTENSIONS = [''html'', ''htm'', ''php'', ''asp'', ''aspx'', ''jsp'', ''shtml'', ''xhtml'']"

text \<open>
  The module's globals. The counters \<open>Counter\<close> and \<open>defaultdict(int)\<close> are total
  functions with 0 for a key never touched; \<open>seen_simhashes\<close> is the deque, oldest entry
  first; \<open>log_file\<close> is the content of \<open>processing_log.jsonl\<close> and \<open>page_files\<close> the
  directory of saved pages, by file name. An entry of the processing log is the tuple
  (url, status, reason, links found); its time stamp is left out.
\<close>

record page_data =
  pd_url :: string
  pd_word_count :: nat
  pd_words :: "string list"
  pd_content_hash :: string

record scraper_state =
  pages_processed :: nat
  pages_saved :: nat
  links_discovered :: nat
  duplicates_found :: nat
  seen_exact_hashes :: "string set"
  seen_simhashes :: "(int \<times> string) list"
  rejection_stats :: "string \<Rightarrow> nat"
  rejection_samples :: "string \<Rightarrow> string list"
  processing_log :: "(string \<times> string \<times> string \<times> nat) list"
  url_pattern_counter :: "string \<Rightarrow> nat"
  domain_path_counter :: "string \<Rightarrow> string \<Rightarrow> nat"
  log_file :: "(string \<times> string \<times> string \<times> nat) list"
  page_files :: "string \<rightharpoonup> page_data"

definition initial_state :: scraper_state where
  "initial_state =
     \<lparr>pages_processed = 0, pages_saved = 0, links_discovered = 0, duplicates_found = 0,
      seen_exact_hashes = {}, seen_simhashes = [],
      rejection_stats = (\<lambda>_. 0), rejection_samples = (\<lambda>_. []),
      processing_log = [],
      url_pattern_counter = (\<lambda>_. 0), domain_path_counter = (\<lambda>_ _. 0),
      log_file = [], page_files = Map.empty\<rparr>"

text \<open>\<open>try: body except Exception: handler\<close> on a computation with state: the state
  reached when the exception was raised goes to the handler.\<close>

definition try_except ::
  "('s \<Rightarrow> (pyerr + 'a) \<times> 's) \<Rightarrow> ('s \<Rightarrow> (pyerr + 'a) \<times> 's) \<Rightarrow> 's \<Rightarrow> (pyerr + 'a) \<times> 's" where
  "try_except body handler s =
     (case body s of
        (Inl e, s') \<Rightarrow> handler s'
      | (Inr x, s') \<Rightarrow> (Inr x, s'))"

definition bindE :: "pyerr + 'a \<Rightarrow> ('a \<Rightarrow> pyerr + 'b) \<Rightarrow> pyerr + 'b" where
  "bindE m f = (case m of Inl e \<Rightarrow> Inl e | Inr x \<Rightarrow> f x)"

definition log_rejection :: "string \<Rightarrow> string \<Rightarrow> bool \<Rightarrow> scraper_state \<Rightarrow> scraper_state" where
  "log_rejection reason url save_sample s =
     (let s1 = s\<lparr>rejection_stats := (rejection_stats s)(reason := rejection_stats s reason + 1)\<rparr>
      in if save_sample \<and> length (rejection_samples s1 reason) < 5
         then s1\<lparr>rejection_samples := (rejection_samples s1)(reason := rejection_samples s1 reason @ [url])\<rparr>
         else s1)"

section \<open>Patterns\<close>

text \<open>The patterns are the characters of the source's raw string literals: \<open>BS\<close> is one
  backslash, and the source writes two of them before \<open>.\<close> and before \<open>d\<close>.\<close>

definition CALENDAR_PATTERNS :: "string list" where
  "CALENDAR_PATTERNS =
     [''/calendar'', ''/events?/'', ''/event-calendar'', ''/ical'',
      ''/'' @ [BS, BS] @ ''.ics$'', ''[?&]calendar'', ''[?&]event'',
      ''[?&]date='', ''[?&]month='', ''[?&]year='',
      ''/'' @ [BS, BS] @ ''d{4}/'' @ [BS, BS] @ ''d{2}/'' @ [BS, BS] @ ''d{2}'']"

definition TRAP_PATTERNS :: "string list" where
  "TRAP_PATTERNS =
     [''/wp-admin'', ''/wp-login'', ''/login'', ''/logout'',
      ''/signin'', ''/signout'', ''/register'', ''/signup'',
      ''/user/'', ''/account'', ''/profile'', ''/dashboard'', ''/admin'']"

definition LEGITIMATE_PATTERNS :: "string list" where
  "LEGITIMATE_PATTERNS =
     [''/wiki/'', ''/archive/'', ''/docs/'', ''/pub/'',
      ''/repository/'', ''/faculty/'', ''/courses?/'',
      ''/research/'', ''/projects?/'', ''/publications?/'']"

definition is_calendar_or_event :: "string \<Rightarrow> pyerr + bool" where
  "is_calendar_or_event url = re_any CALENDAR_PATTERNS (lower url)"

definition is_known_trap :: "string \<Rightarrow> pyerr + bool" where
  "is_known_trap url = re_any TRAP_PATTERNS (lower url)"

definition is_legitimate_pattern :: "string \<Rightarrow> pyerr + bool" where
  "is_legitimate_pattern url = re_any LEGITIMATE_PATTERNS (lower url)"

section \<open>The trap detector\<close>

definition get_url_pattern_try :: "env \<Rightarrow> string \<Rightarrow> pyerr + string" where
  "get_url_pattern_try E url =
     bindE (urlparse url) (\<lambda>parsed.
     bindE (re_sub ([BS, BS] @ ''d+'') ''N'' (path parsed)) (\<lambda>path1.
     bindE (re_sub ([BS, BS] @ ''d{4}-'' @ [BS, BS] @ ''d{2}-'' @ [BS, BS] @ ''d{2}'') ''DATE'' path1) (\<lambda>path2.
     bindE (is_legitimate_pattern url) (\<lambda>legit.
       if legit then Inr (netloc parsed @ path2)
       else
         (let query_keys = (if query parsed \<noteq> []
                            then join ''&'' (sorted_strs (map fst (parse_qs E (query parsed))))
                            else '''')
          in Inr (netloc parsed @ path2 @ ''?'' @ query_keys))))))"

definition get_url_pattern :: "env \<Rightarrow> string \<Rightarrow> string" where
  "get_url_pattern E url = (case get_url_pattern_try E url of Inl e \<Rightarrow> url | Inr p \<Rightarrow> p)"

text \<open>Check 4: a pagination parameter whose first value is an integer above 200. A value
  that is not an integer raises ValueError, which the source passes over.\<close>

definition pagination_trap :: "env \<Rightarrow> string \<Rightarrow> bool" where
  "pagination_trap E qry =
     (qry \<noteq> [] \<and>
      (let query_params = parse_qs E qry
       in list_ex (\<lambda>param.
            (case map_of query_params param of
               None \<Rightarrow> False
             | Some vs \<Rightarrow>
                 (case vs of
                    [] \<Rightarrow> False
                  | v # _ \<Rightarrow> (case py_int v of None \<Rightarrow> False | Some n \<Rightarrow> n > 200))))
          [''page'', ''p'', ''offset'', ''start'']))"

text \<open>Check 6: at least 4 of the filter words occur in the lower-cased query.\<close>

definition filter_combination :: "string \<Rightarrow> bool" where
  "filter_combination qry =
     (qry \<noteq> [] \<and>
      length (filter (\<lambda>p. contains (lower qry) p) [''sort'', ''order'', ''filter'', ''view'', ''display'']) \<ge> 4)"

text \<open>
  The body of \<open>is_url_trap\<close>'s \<open>try\<close>. \<open>is_legitimate_pattern(url)\<close> has no effect and
  depends on \<open>url\<close> alone, so its four calls are one binding, made where the first call
  is: before any counter changes.
\<close>

definition is_url_trap_try :: "env \<Rightarrow> string \<Rightarrow> scraper_state \<Rightarrow> (pyerr + bool) \<times> scraper_state" where
  "is_url_trap_try E url s =
     (case urlparse url of
        Inl e \<Rightarrow> (Inl e, s)
      | Inr parsed \<Rightarrow>
     (case is_legitimate_pattern url of
        Inl e \<Rightarrow> (Inl e, s)
      | Inr legit \<Rightarrow>
     (let path_parts = filter (\<lambda>p. p \<noteq> []) (split_on (CHR ''/'') (path parsed));
          max_depth = (if legit then 15 else MAX_PATH_DEPTH)
      in if length path_parts > max_depth then (Inr True, s)
         else if \<not> legit \<and> list_ex (\<lambda>p. count_list path_parts p > 3) path_parts then (Inr True, s)
         else
           (let pattern = get_url_pattern E url;
                s1 = s\<lparr>url_pattern_counter := (url_pattern_counter s)(pattern := url_pattern_counter s pattern + 1)\<rparr>;
                max_repeats = (if legit then 150 else 75 :: nat)
            in if url_pattern_counter s1 pattern > max_repeats then (Inr True, s1)
               else if pagination_trap E (query parsed) then (Inr True, s1)
               else if length (query parsed) > 200 then (Inr True, s1)
               else if filter_combination (query parsed) then (Inr True, s1)
               else
                 (let n = domain_path_counter s1 (netloc parsed) (path parsed) + 1;
                      s2 = s1\<lparr>domain_path_counter :=
                              (domain_path_counter s1)(netloc parsed :=
                                 (domain_path_counter s1 (netloc parsed))(path parsed := n))\<rparr>;
                      max_same = (if legit then 25 else 15 :: nat)
                  in if n > max_same then (Inr True, s2) else (Inr False, s2))))))"

definition is_url_trap :: "env \<Rightarrow> string \<Rightarrow> scraper_state \<Rightarrow> (pyerr + bool) \<times> scraper_state" where
  "is_url_trap E url = try_except (is_url_trap_try E url) (\<lambda>s. (Inr False, s))"

section \<open>URL validation\<close>

definition blocked :: "string list" where
  "blocked =
     [''physics.uci.edu'', ''economics.uci.edu'', ''chem.uci.edu'',
      ''bio.uci.edu'', ''math.uci.edu'', ''engineering.uci.edu'',
      ''cecs.uci.edu'', ''eecs.uci.edu'', ''nacs.uci.edu'']"

text \<open>Check 8: the extension after the last dot of the lower-cased path, up to the next
  \<open>/\<close> and \<open>?\<close>, when it is an invalid one that is not an allowed one.\<close>

definition rejected_extension :: "string \<Rightarrow> string option" where
  "rejected_extension path_lower =
     (case partition_last (CHR ''.'') path_lower of
        None \<Rightarrow> None
      | Some (stem, tail) \<Rightarrow>
          (let ext = hd (split_on (CHR ''?'') (hd (split_on (CHR ''/'') tail)))
           in if ext \<noteq> [] \<and> ext \<notin> set ALLOWED_EXTENSIONS \<and> ext \<in> set INVALID_EXTENSIONS
              then Some ext else None))"

definition is_valid_try :: "env \<Rightarrow> string \<Rightarrow> scraper_state \<Rightarrow> (pyerr + bool) \<times> scraper_state" where
  "is_valid_try E url s =
     (case urlparse url of
        Inl e \<Rightarrow> (Inl e, s)
      | Inr parsed \<Rightarrow>
          if scheme parsed \<notin> {''http'', ''https''}
          then (Inr False, log_rejection ''bad_scheme'' url False s)
          else
            (let nl = lower (netloc parsed)
             in if \<not> list_ex (\<lambda>d. nl = d \<or> endswith nl (''.'' @ d)) VALID_DOMAINS
                then (Inr False, log_rejection ''bad_domain'' url False s)
                else if list_ex (\<lambda>b. nl = b \<or> endswith nl (''.'' @ b)) blocked
                then (Inr False, log_rejection ''blocked_domain'' url False s)
                else if length url > MAX_URL_LENGTH
                then (Inr False, log_rejection ''url_too_long'' url False s)
                else
                  (case is_calendar_or_event url of
                     Inl e \<Rightarrow> (Inl e, s)
                   | Inr cal \<Rightarrow>
                       if cal then (Inr False, log_rejection ''calendar_event'' url True s)
                       else
                         (case is_known_trap url of
                            Inl e \<Rightarrow> (Inl e, s)
                          | Inr known \<Rightarrow>
                              if known then (Inr False, log_rejection ''known_trap'' url True s)
                              else
                                (case is_url_trap E url s of
                                   (Inl e, s1) \<Rightarrow> (Inl e, s1)
                                 | (Inr trap, s1) \<Rightarrow>
                                     if trap then (Inr False, log_rejection ''url_trap'' url False s1)
                                     else
                                       (case rejected_extension (lower (path parsed)) of
                                          Some ext \<Rightarrow> (Inr False, log_rejection (''ext_'' @ ext) url False s1)
                                        | None \<Rightarrow>
                                            if query parsed \<noteq> [] \<and>
                                               list_ex (\<lambda>b. contains (lower (query parsed)) b)
                                                 [''format=txt'', ''format=pdf'', ''format=csv'',
                                                  ''export=txt'', ''export=pdf'', ''download='']
                                            then (Inr False, log_rejection ''format_param'' url False s1)
                                            else if list_ex (\<lambda>x. contains (lower url) x)
                                                      [''/search?'', ''?search='', ''/print/'', ''?print='']
                                            then (Inr False, log_rejection ''action'' url False s1)
                                            else (Inr True, s1)))))))"

definition is_valid :: "env \<Rightarrow> string \<Rightarrow> scraper_state \<Rightarrow> (pyerr + bool) \<times> scraper_state" where
  "is_valid E url = try_except (is_valid_try E url) (\<lambda>s. (Inr False, s))"

section \<open>Duplicate detection\<close>

definition mask64 :: "int \<Rightarrow> int" where
  "mask64 h = h AND (2 ^ 64 - 1)"

definition shingle_at :: "string list \<Rightarrow> nat \<Rightarrow> string" where
  "shingle_at ws i = join '' '' (take 3 (drop i ws))"

text \<open>\<open>range(0, n, step)\<close> for a positive step.\<close>

definition range_step :: "nat \<Rightarrow> nat \<Rightarrow> nat list" where
  "range_step n step = map (\<lambda>k. k * step) [0 ..< (n + step - 1) div step]"

definition compute_simhash :: "env \<Rightarrow> string \<Rightarrow> int" where
  "compute_simhash E text =
     (let ws = split_ws text
      in if length ws < 3 then mask64 (py_hash E text)
         else
           (let shingles = (if length ws > 500
                            then map (shingle_at ws) (range_step (length ws - 2) (length ws div 250))
                            else map (shingle_at ws) [0 ..< length ws - 2])
            in if shingles = [] then 0
               else
                 (let vector = foldl (\<lambda>v shingle.
                                   (let shingle_hash = mask64 (py_hash E shingle)
                                    in map (\<lambda>i. if bit shingle_hash i then v ! i + 1 else v ! i - 1) [0 ..< 64]))
                                 (replicate 64 (0 :: int)) shingles
                  in foldl (\<lambda>fingerprint i.
                              if vector ! i > 0 then fingerprint OR push_bit i 1 else fingerprint)
                       0 [0 ..< 64])))"

text \<open>\<open>bin(x).count('1')\<close>: the number of one bits of the magnitude of \<open>x\<close>.\<close>

fun popcount :: "nat \<Rightarrow> nat" where
  "popcount n = (if n = 0 then 0 else n mod 2 + popcount (n div 2))"

declare popcount.simps [simp del]

definition hamming_distance :: "int \<Rightarrow> int \<Rightarrow> nat" where
  "hamming_distance hash1 hash2 = popcount (nat \<bar>hash1 XOR hash2\<bar>)"

text \<open>\<open>deque.append\<close> on a deque with \<open>maxlen\<close>: the item is appended, and when the
  deque is then longer than \<open>maxlen\<close> its first item is dropped.\<close>

definition deque_append :: "nat \<Rightarrow> 'a list \<Rightarrow> 'a \<Rightarrow> 'a list" where
  "deque_append maxlen d x = (let d' = d @ [x] in if length d' > maxlen then tl d' else d')"

definition is_duplicate ::
  "env \<Rightarrow> string \<Rightarrow> string \<Rightarrow> scraper_state \<Rightarrow> (bool \<times> string option) \<times> scraper_state" where
  "is_duplicate E text_content url s =
     (if text_content = [] \<or> length (strip text_content) < 100 then ((True, Some ''too_short''), s)
      else
        (let content_hash = md5_hex E text_content
         in if content_hash \<in> seen_exact_hashes s
            then ((True, Some ''exact''), s\<lparr>duplicates_found := duplicates_found s + 1\<rparr>)
            else
              (let s1 = s\<lparr>seen_exact_hashes := insert content_hash (seen_exact_hashes s)\<rparr>;
                   content_simhash = compute_simhash E text_content
               in if list_ex (\<lambda>(seen_hash, seen_url).
                               hamming_distance content_simhash seen_hash \<le> SIMHASH_THRESHOLD)
                       (seen_simhashes s1)
                  then ((True, Some ''similar''), s1\<lparr>duplicates_found := duplicates_found s1 + 1\<rparr>)
                  else ((False, None),
                        s1\<lparr>seen_simhashes :=
                             deque_append SIMHASH_WINDOW (seen_simhashes s1) (content_simhash, url)\<rparr>))))"

section \<open>Logging\<close>

definition save_processing_log :: "scraper_state \<Rightarrow> scraper_state" where
  "save_processing_log s =
     (if processing_log s = [] then s
      else s\<lparr>log_file := log_file s @ processing_log s, processing_log := []\<rparr>)"

definition log_processing :: "string \<Rightarrow> string \<Rightarrow> string \<Rightarrow> nat \<Rightarrow> scraper_state \<Rightarrow> scraper_state" where
  "log_processing url status reason links_found s =
     (let s1 = s\<lparr>processing_log := processing_log s @ [(url, status, reason, links_found)]\<rparr>
      in if length (processing_log s1) mod 100 = 0 then save_processing_log s1 else s1)"

text \<open>Decimal text of a number, for the f-strings.\<close>

fun str_nat :: "nat \<Rightarrow> string" where
  "str_nat n = (if n < 10 then [char_of (48 + n)] else str_nat (n div 10) @ [char_of (48 + n mod 10)])"

declare str_nat.simps [simp del]


section \<open>The parsed page\<close>

text \<open>
  The parsed page is a forest of text nodes and tags (name, attributes, children).
  \<open>soup([names])\<close> finds every tag with one of the names and \<open>decompose\<close> removes it
  with its subtree; \<open>get_text(separator=' ', strip=True)\<close> strips every text node,
  drops the empty ones and joins the rest with the separator.
\<close>

fun decompose :: "string list \<Rightarrow> node \<Rightarrow> node list" where
  "decompose names (Text t) = [Text t]"
| "decompose names (Tag name attrs children) =
     (if name \<in> set names then []
      else [Tag name attrs (concat (map (decompose names) children))])"

fun strings :: "node \<Rightarrow> string list" where
  "strings (Text t) = [t]"
| "strings (Tag name attrs children) = concat (map strings children)"

definition get_text :: "node list \<Rightarrow> string" where
  "get_text soup = join '' '' (filter (\<lambda>t. t \<noteq> []) (map strip (concat (map strings soup))))"

text \<open>The extractor changes the soup it is given: the result is the text with the soup
  that is left. Its pattern is the source's \<open>r's+'\<close>.\<close>

definition extract_text_content_from_soup :: "node list \<Rightarrow> string \<times> node list" where
  "extract_text_content_from_soup soup =
     (let soup' = concat (map (decompose [''script'', ''style'', ''meta'', ''link'', ''noscript'',
                                            ''header'', ''footer'', ''nav'']) soup);
          text = get_text soup'
      in (case re_sub ''s+'' '' '' text of
            Inl e \<Rightarrow> ('''', soup')
          | Inr t \<Rightarrow> (strip t, soup')))"





section \<open>The scraper\<close>

record response =
  status :: int
  raw_response :: "string option"




section \<open>The frontier\<close>

text \<open>
  \<open>domain_queues\<close> is the dict from a domain to its queue, in insertion order, the
  head of a queue first; \<open>save\<close> is the shelf, from a URL hash to (url, completed), and
  stands for the file on disk that every write goes through to. The clock is a real
  number of seconds, read once in each call of \<open>get_tbd_url\<close> and given as an argument.
\<close>

record config =
  save_file :: string
  seed_urls :: "string list"
  time_delay :: real

record frontier =
  domain_queues :: "(string \<times> string list) list"
  last_access_time :: "string \<rightharpoonup> real"
  urls_seen :: "string set"
  save :: "(string \<times> (string \<times> bool)) list"

definition get_domain :: "string \<Rightarrow> string" where
  "get_domain url = (case urlparse url of Inl e \<Rightarrow> ''unknown'' | Inr parsed \<Rightarrow> lower (netloc parsed))"

definition add_to_domain_queue :: "string \<Rightarrow> frontier \<Rightarrow> frontier" where
  "add_to_domain_queue url F =
     (let domain = get_domain url;
          queue = (case map_of (domain_queues F) domain of None \<Rightarrow> [] | Some q \<Rightarrow> q)
      in F\<lparr>domain_queues := AList.update domain (queue @ [url]) (domain_queues F)\<rparr>)"

definition get_total_tbd_count :: "frontier \<Rightarrow> nat" where
  "get_total_tbd_count F = sum_list (map (\<lambda>(domain, queue). length queue) (domain_queues F))"

definition ready_domains :: "config \<Rightarrow> real \<Rightarrow> frontier \<Rightarrow> (string \<times> string list) list" where
  "ready_domains cfg current_time F =
     filter (\<lambda>(domain, queue).
               queue \<noteq> [] \<and>
               current_time - (case last_access_time F domain of None \<Rightarrow> 0 | Some t \<Rightarrow> t)
                 \<ge> time_delay cfg)
       (domain_queues F)"

definition get_tbd_url :: "config \<Rightarrow> real \<Rightarrow> frontier \<Rightarrow> string option \<times> frontier" where
  "get_tbd_url cfg current_time F =
     (case ready_domains cfg current_time F of
        [] \<Rightarrow> (None, F)
      | (domain, queue) # _ \<Rightarrow>
          (case queue of
             [] \<Rightarrow> (None, F)
           | url # rest \<Rightarrow>
               (Some url,
                F\<lparr>domain_queues := AList.update domain rest (domain_queues F),
                  last_access_time := (last_access_time F)(domain \<mapsto> current_time)\<rparr>)))"

definition add_url :: "env \<Rightarrow> string \<Rightarrow> frontier \<Rightarrow> frontier" where
  "add_url E url0 F =
     (let url = normalize E url0;
          urlhash = get_urlhash E url
      in if url \<in> urls_seen F then F
         else if map_of (save F) urlhash = None
         then
           (let F1 = F\<lparr>save := AList.update urlhash (url, False) (save F)\<rparr>;
                F2 = add_to_domain_queue url F1
            in F2\<lparr>urls_seen := insert url (urls_seen F2)\<rparr>)
         else F)"

definition mark_url_complete :: "env \<Rightarrow> string \<Rightarrow> frontier \<Rightarrow> frontier" where
  "mark_url_complete E url F = F\<lparr>save := AList.update (get_urlhash E url) (url, True) (save F)\<rparr>"

text \<open>The loop of \<open>_parse_save_file\<close> over \<open>save.values()\<close>; \<open>is_valid\<close> is called for
  the entries that are not completed, each call on the module state the one before left.\<close>

fun parse_entries ::
  "env \<Rightarrow> (string \<times> bool) list \<Rightarrow> frontier \<Rightarrow> scraper_state \<Rightarrow> (pyerr + frontier) \<times> scraper_state" where
  "parse_entries E [] F g = (Inr F, g)"
| "parse_entries E ((url, completed) # rest) F g =
     (if completed then parse_entries E rest F g
      else
        (case is_valid E url g of
           (Inl e, g1) \<Rightarrow> (Inl e, g1)
         | (Inr ok, g1) \<Rightarrow>
             if ok
             then (let F1 = add_to_domain_queue url F
                   in parse_entries E rest (F1\<lparr>urls_seen := insert (normalize E url) (urls_seen F1)\<rparr>) g1)
             else parse_entries E rest F g1))"

definition parse_save_file :: "env \<Rightarrow> frontier \<Rightarrow> scraper_state \<Rightarrow> (pyerr + frontier) \<times> scraper_state" where
  "parse_save_file E F g = parse_entries E (map snd (save F)) F g"

text \<open>The constructor. \<open>disk\<close> is the save file before the call: \<open>None\<close> when there is no
  file. \<open>shelve.open\<close> opens the file, or a new empty one.\<close>

definition Frontier_init ::
  "env \<Rightarrow> config \<Rightarrow> bool \<Rightarrow> (string \<times> (string \<times> bool)) list option \<Rightarrow> scraper_state
     \<Rightarrow> (pyerr + frontier) \<times> scraper_state" where
  "Frontier_init E cfg restart disk g =
     (let disk1 = (if disk \<noteq> None \<and> restart then None else disk);
          F0 = \<lparr>domain_queues = [], last_access_time = Map.empty, urls_seen = {},
                save = (case disk1 of None \<Rightarrow> [] | Some shelf \<Rightarrow> shelf)\<rparr>
      in if restart then (Inr (foldl (\<lambda>F url. add_url E url F) F0 (seed_urls cfg)), g)
         else
           (case parse_save_file E F0 g of
              (Inl e, g1) \<Rightarrow> (Inl e, g1)
            | (Inr F1, g1) \<Rightarrow>
                if save F1 = [] then (Inr (foldl (\<lambda>F url. add_url E url F) F1 (seed_urls cfg)), g1)
                else (Inr F1, g1)))"

text \<open>The URLs in the queues, and a run of calls on the frontier that records every URL
  handed out with the time of the call.\<close>

definition queued_urls :: "frontier \<Rightarrow> string set" where
  "queued_urls F = (\<Union>(domain, queue) \<in> set (domain_queues F). set queue)"

datatype call = Add_url string | Mark_url_complete string | Get_tbd_url real

fun run_calls ::
  "env \<Rightarrow> config \<Rightarrow> call list \<Rightarrow> frontier \<Rightarrow> (real \<times> string) list \<Rightarrow> frontier \<times> (real \<times> string) list" where
  "run_calls E cfg [] F evs = (F, evs)"
| "run_calls E cfg (Add_url u # cs) F evs = run_calls E cfg cs (add_url E u F) evs"
| "run_calls E cfg (Mark_url_complete u # cs) F evs = run_calls E cfg cs (mark_url_complete E u F) evs"
| "run_calls E cfg (Get_tbd_url t # cs) F evs =
     (case get_tbd_url cfg t F of
        (None, F') \<Rightarrow> run_calls E cfg cs F' evs
      | (Some u, F') \<Rightarrow> run_calls E cfg cs F' (evs @ [(t, u)]))"

section \<open>Runs and a test environment\<close>

text \<open>Calls of \<open>is_valid\<close> and of \<open>is_duplicate\<close> one after the other on the module state.\<close>

fun run_is_valid :: "env \<Rightarrow> string list \<Rightarrow> scraper_state \<Rightarrow> (pyerr + bool) list \<times> scraper_state" where
  "run_is_valid E [] s = ([], s)"
| "run_is_valid E (url # urls) s =
     (case is_valid E url s of
        (r, s1) \<Rightarrow> (case run_is_valid E urls s1 of (rs, s2) \<Rightarrow> (r # rs, s2)))"

fun run_is_duplicate :: "env \<Rightarrow> (string \<times> string) list \<Rightarrow> scraper_state \<Rightarrow> scraper_state" where
  "run_is_duplicate E [] s = s"
| "run_is_duplicate E ((text_content, url) # calls) s =
     run_is_duplicate E calls (snd (is_duplicate E text_content url s))"

text \<open>The URLs that the loading of a save file enqueues, as the claim on restart words it:
  the entries that are not completed and for which \<open>is_valid\<close>, called in the order of
  the file, returns true.\<close>

fun pending_valid :: "env \<Rightarrow> (string \<times> bool) list \<Rightarrow> scraper_state \<Rightarrow> string list" where
  "pending_valid E [] g = []"
| "pending_valid E ((url, completed) # rest) g =
     (if completed then pending_valid E rest g
      else (case is_valid E url g of
              (r, g1) \<Rightarrow> (if r = Inr True then [url] else []) @ pending_valid E rest g1))"

text \<open>An environment to evaluate the model at concrete inputs: the hash of a string is its
  length, a digest is the text itself, links are taken as absolute.\<close>

definition test_env :: env where
  "test_env =
     \<lparr>unquote_pct = (\<lambda>s. s), py_hash = (\<lambda>s. int (length s)), md5_hex = (\<lambda>s. s),
      normalize = (\<lambda>u. u), get_urlhash = (\<lambda>u. u),
      urljoin = (\<lambda>base href. Inr href), urldefrag = (\<lambda>u. Inr (takeWhile (\<lambda>c. c \<noteq> CHR ''#'') u)),
      BeautifulSoup = (\<lambda>content. Inr [Tag ''p'' [] [Text content]]),
      list_of_set = (\<lambda>links. links)\<rparr>"

text \<open>A module state whose ring is full.\<close>

definition full_ring_state :: scraper_state where
  "full_ring_state =
     initial_state\<lparr>seen_simhashes := replicate 1000 (1048575, ''https://ics.uci.edu/old'')\<rparr>"

text \<open>The dict of queues has one entry for a domain, and a queue holds URLs of its domain.\<close>

definition keyed :: "frontier \<Rightarrow> bool" where
  "keyed F =
     (distinct (map fst (domain_queues F)) \<and>
      (\<forall>d q u. map_of (domain_queues F) d = Some q \<and> u \<in> set q \<longrightarrow> get_domain u = d))"

text \<open>Every URL handed out so far is of a domain whose last access time is at least the
  time of that hand-out.\<close>

definition recorded :: "frontier \<Rightarrow> (real \<times> string) list \<Rightarrow> bool" where
  "recorded F evs =
     (\<forall>t u. (t, u) \<in> set evs \<longrightarrow>
        (\<exists>t'. last_access_time F (get_domain u) = Some t' \<and> t \<le> t'))"

text \<open>Two hand-outs of one domain are at least the delay apart, the later call later.\<close>

definition separated :: "config \<Rightarrow> (real \<times> string) list \<Rightarrow> bool" where
  "separated cfg evs =
     (\<forall>i j. i < j \<and> j < length evs \<and> get_domain (snd (evs ! i)) = get_domain (snd (evs ! j))
        \<longrightarrow> time_delay cfg \<le> fst (evs ! j) - fst (evs ! i))"

definition polite_config :: config where
  "polite_config =
     \<lparr>save_file = ''frontier.shelve'',
      seed_urls = [''https://cs.uci.edu/1'', ''https://cs.uci.edu/2''],
      time_delay = 1 / 2\<rparr>"

definition polite_frontier :: frontier where
  "polite_frontier =
     \<lparr>domain_queues = [(''cs.uci.edu'', [''https://cs.uci.edu/1'', ''https://cs.uci.edu/2''])],
      last_access_time = Map.empty,
      urls_seen = {''https://cs.uci.edu/2'', ''https://cs.uci.edu/1''},
      save = [(''https://cs.uci.edu/1'', (''https://cs.uci.edu/1'', False)),
              (''https://cs.uci.edu/2'', (''https://cs.uci.edu/2'', False))]\<rparr>"

text \<open>Strings of decimal digits, and the atoms of a pattern that match no digit.\<close>

definition digits :: "string \<Rightarrow> bool" where
  "digits ds = list_all is_digit ds"

fun nondigit_atom :: "atom \<Rightarrow> bool" where
  "nondigit_atom (Lit l) = (\<not> is_digit l)"
| "nondigit_atom (Cls cs) = list_all (\<lambda>c. \<not> is_digit c) cs"
| "nondigit_atom AnyChar = False"
| "nondigit_atom Digit = False"
| "nondigit_atom Space = True"

text \<open>Two families of URLs: a number as the last path segment, and a number as the query.\<close>

definition numbered_url :: "string \<Rightarrow> string" where
  "numbered_url ds = ''https://stat.uci.edu/x/'' @ ds"

definition queried_url :: "string \<Rightarrow> string" where
  "queried_url ds = ''https://ics.uci.edu/list?'' @ ds"

text \<open>The decimal numbers from 1 to 76, and the first sixteen of them.\<close>

definition numbers76 :: "string list" where
  "numbers76 = map str_nat [1 ..< 77]"

definition numbers16 :: "string list" where
  "numbers16 = take 16 numbers76"

text \<open>What an accepted call of \<open>is_valid\<close> on a URL \<open>queried_url ds\<close> does to the module
  state: it counts the pattern and the path once more.\<close>

definition visit_queried :: "scraper_state \<Rightarrow> scraper_state" where
  "visit_queried s =
     s\<lparr>url_pattern_counter := (url_pattern_counter s)
         (''ics.uci.edu/list?'' := url_pattern_counter s ''ics.uci.edu/list?'' + 1),
       domain_path_counter := (domain_path_counter s)
         (''ics.uci.edu'' := (domain_path_counter s ''ics.uci.edu'')
            (''/list'' := domain_path_counter s ''ics.uci.edu'' ''/list'' + 1))\<rparr>"

text \<open>A save file with sixteen pending URLs, and one with a completed and a pending URL.\<close>

definition shelf16 :: "(string \<times> (string \<times> bool)) list" where
  "shelf16 = map (\<lambda>ds. (queried_url ds, (queried_url ds, False))) numbers16"

definition shelf2 :: "(string \<times> (string \<times> bool)) list" where
  "shelf2 =
     [(''https://ics.uci.edu/done'', (''https://ics.uci.edu/done'', True)),
      (queried_url ''7'', (queried_url ''7'', False))]"




text \<open>A shelf as the frontier writes it: one entry for a key, and the key of an entry is
  \<open>get_urlhash\<close> of the URL stored in it.\<close>

definition written_shelf :: "env \<Rightarrow> (string \<times> (string \<times> bool)) list \<Rightarrow> bool" where
  "written_shelf E shelf =
     (distinct (map fst shelf) \<and> (\<forall>(k, (u, c)) \<in> set shelf. k = get_urlhash E u))"

section \<open>Totality of \<open>is_valid\<close>\<close>

lemma try_except_returns:
  "\<exists>b s'. try_except body (\<lambda>s. (Inr d, s)) s = (Inr b, s')"
  by (cases "body s"; cases "fst (body s)") (auto simp: try_except_def)

lemma is_valid_returns: "\<exists>b s'. is_valid E url s = (Inr b, s')"
  unfolding is_valid_def by (rule try_except_returns)

lemma is_url_trap_returns: "\<exists>b s'. is_url_trap E url s = (Inr b, s')"
  unfolding is_url_trap_def by (rule try_except_returns)

text \<open>
  C10. For every string \<open>url\<close>, every module state and every environment, \<open>is_valid\<close>
  returns a boolean and raises nothing; when the body of its \<open>try\<close> raises, the call
  returns \<open>False\<close> on the state reached at the raise.
\<close>

theorem is_valid_total:
  "(\<exists>b s'. is_valid E url s = (Inr b, s')) \<and>
   (\<forall>e s'. is_valid_try E url s = (Inl e, s') \<longrightarrow> is_valid E url s = (Inr False, s'))"
  by (cases "is_valid_try E url s"; cases "fst (is_valid_try E url s)")
     (auto simp: is_valid_def try_except_def)

theorem is_valid_total_witness:
  "fst (is_valid_try test_env ''http://[abc'' initial_state) = Inl (ValueError ''Invalid IPv6 URL'') \<and>
   fst (is_valid test_env ''http://[abc'' initial_state) = Inr False"
proof -
  have raised: "fst (is_valid_try test_env ''http://[abc'' initial_state) = Inl (ValueError ''Invalid IPv6 URL'')"
    by code_simp
  then have "is_valid_try test_env ''http://[abc'' initial_state =
      (Inl (ValueError ''Invalid IPv6 URL''), snd (is_valid_try test_env ''http://[abc'' initial_state))"
    by (metis prod.collapse)
  with is_valid_total [of test_env "''http://[abc''" initial_state]
  have "is_valid test_env ''http://[abc'' initial_state =
      (Inr False, snd (is_valid_try test_env ''http://[abc'' initial_state))"
    by blast
  with raised show ?thesis by simp
qed

section \<open>Idempotence of \<open>add_url\<close>\<close>

lemma add_to_domain_queue_fields [simp]:
  "urls_seen (add_to_domain_queue url F) = urls_seen F"
  "save (add_to_domain_queue url F) = save F"
  "last_access_time (add_to_domain_queue url F) = last_access_time F"
  by (simp_all add: add_to_domain_queue_def Let_def)

text \<open>
  C6. For every URL and every frontier state, a second \<open>add_url\<close> of the same URL
  leaves the whole frontier (queues, seen set, shelf, access times) as the first call
  left it: nothing is enqueued twice.
\<close>

theorem add_url_idempotent: "add_url E u (add_url E u F) = add_url E u F"
  by (simp add: add_url_def Let_def)
section \<open>The SimHash ring\<close>

lemma deque_append_length:
  "length d \<le> maxlen \<Longrightarrow> length (deque_append maxlen d x) \<le> maxlen"
  by (simp add: deque_append_def Let_def)

lemma deque_append_full:
  "length d = maxlen \<Longrightarrow> 0 < maxlen \<Longrightarrow> deque_append maxlen d x = tl d @ [x]"
  by (cases d) (simp_all add: deque_append_def Let_def)

lemma is_duplicate_ring_length:
  "length (seen_simhashes s) \<le> SIMHASH_WINDOW \<Longrightarrow>
   length (seen_simhashes (snd (is_duplicate E text_content url s))) \<le> SIMHASH_WINDOW"
  by (simp add: is_duplicate_def Let_def deque_append_length)

lemma run_is_duplicate_ring_length:
  "length (seen_simhashes s) \<le> SIMHASH_WINDOW \<Longrightarrow>
   length (seen_simhashes (run_is_duplicate E calls s)) \<le> SIMHASH_WINDOW"
proof (induction calls arbitrary: s)
  case Nil
  then show ?case by simp
next
  case (Cons c calls)
  obtain text_content url where c: "c = (text_content, url)" by (cases c)
  from Cons.prems have "length (seen_simhashes (snd (is_duplicate E text_content url s))) \<le> SIMHASH_WINDOW"
    by (rule is_duplicate_ring_length)
  then show ?case using Cons.IH c by simp
qed

lemma is_duplicate_evicts:
  assumes "length (seen_simhashes s) = SIMHASH_WINDOW"
      and "is_duplicate E text_content url s = ((False, r), s')"
  shows "seen_simhashes s' = tl (seen_simhashes s) @ [(compute_simhash E text_content, url)]"
proof -
  have pos: "0 < SIMHASH_WINDOW" by (simp add: SIMHASH_WINDOW_def)
  from assms(2) have "seen_simhashes s' =
      deque_append SIMHASH_WINDOW (seen_simhashes s) (compute_simhash E text_content, url)"
    by (auto simp: is_duplicate_def Let_def split: if_splits)
  with assms(1) pos show ?thesis by (simp add: deque_append_full)
qed

text \<open>
  C9. After any sequence of \<open>is_duplicate\<close> calls from the initial module state the
  ring holds at most \<open>SIMHASH_WINDOW\<close> entries; a call keeps the bound; and a call that
  appends to a full ring drops the oldest entry and puts the new one last.
\<close>

theorem simhash_ring_bounded:
  "length (seen_simhashes (run_is_duplicate E calls initial_state)) \<le> SIMHASH_WINDOW \<and>
   (\<forall>s text_content url.
      length (seen_simhashes s) \<le> SIMHASH_WINDOW \<longrightarrow>
      length (seen_simhashes (snd (is_duplicate E text_content url s))) \<le> SIMHASH_WINDOW) \<and>
   (\<forall>s text_content url r s'.
      length (seen_simhashes s) = SIMHASH_WINDOW \<and>
      is_duplicate E text_content url s = ((False, r), s') \<longrightarrow>
      seen_simhashes s' = tl (seen_simhashes s) @ [(compute_simhash E text_content, url)])"
proof (intro conjI allI impI)
  show "length (seen_simhashes (run_is_duplicate E calls initial_state)) \<le> SIMHASH_WINDOW"
    by (rule run_is_duplicate_ring_length) (simp add: initial_state_def)
next
  fix s :: scraper_state and text_content url
  assume "length (seen_simhashes s) \<le> SIMHASH_WINDOW"
  then show "length (seen_simhashes (snd (is_duplicate E text_content url s))) \<le> SIMHASH_WINDOW"
    by (rule is_duplicate_ring_length)
next
  fix s :: scraper_state and text_content url r s'
  assume "length (seen_simhashes s) = SIMHASH_WINDOW \<and>
      is_duplicate E text_content url s = ((False, r), s')"
  then show "seen_simhashes s' = tl (seen_simhashes s) @ [(compute_simhash E text_content, url)]"
    using is_duplicate_evicts by blast
qed


lemma list_ex_replicate: "list_ex P (replicate n x) = (0 < n \<and> P x)"
  by (induction n) auto

lemma mask64_small: "0 \<le> h \<Longrightarrow> h < 2 ^ 64 \<Longrightarrow> mask64 h = h"
  unfolding mask64_def
  by (metis mask_eq_exp_minus_1 take_bit_eq_mask take_bit_int_eq_self)

theorem simhash_ring_bounded_witness:
  "length (seen_simhashes full_ring_state) = SIMHASH_WINDOW \<and>
   fst (is_duplicate test_env (replicate 100 (CHR ''a'')) ''https://ics.uci.edu/new'' full_ring_state) = (False, None) \<and>
   seen_simhashes (snd (is_duplicate test_env (replicate 100 (CHR ''a'')) ''https://ics.uci.edu/new'' full_ring_state)) =
     tl (seen_simhashes full_ring_state) @ [(100, ''https://ics.uci.edu/new'')] \<and>
   length (seen_simhashes (snd (is_duplicate test_env (replicate 100 (CHR ''a'')) ''https://ics.uci.edu/new'' full_ring_state))) = 1000"
proof -
  let ?t = "replicate 100 (CHR ''a'')"
  let ?r = "is_duplicate test_env ?t ''https://ics.uci.edu/new'' full_ring_state"
  have full: "length (seen_simhashes full_ring_state) = SIMHASH_WINDOW"
    by (simp add: full_ring_state_def SIMHASH_WINDOW_def)
  have stripped: "strip ?t = ?t" by code_simp
  have ws: "split_ws ?t = [?t]" by code_simp
  have sim: "compute_simhash test_env ?t = 100"
    by (simp add: compute_simhash_def ws Let_def test_env_def mask64_small)
  have far: "hamming_distance 100 1048575 = 17"
    by (simp add: hamming_distance_def popcount.simps)
  have fresh: "fst ?r = (False, None)"
    by (simp add: is_duplicate_def Let_def stripped sim far full_ring_state_def initial_state_def
        list_ex_replicate SIMHASH_THRESHOLD_def)
  then have "?r = ((False, None), snd ?r)" by (metis prod.collapse)
  with full simhash_ring_bounded [of test_env "[]"]
  have "seen_simhashes (snd ?r) = tl (seen_simhashes full_ring_state) @ [(compute_simhash test_env ?t, ''https://ics.uci.edu/new'')]"
    by blast
  with full fresh sim show ?thesis
    by (simp add: full_ring_state_def SIMHASH_WINDOW_def)
qed
section \<open>The admission scenario\<close>

text \<open>
  C5, as stated, fails: the call on \<open>https://physics.uci.edu/x\<close> returns false, but the
  rejection is counted under \<open>bad_domain\<close> and nothing is counted under
  \<open>blocked_domain\<close>, because the host is on none of the four allowed domains and that
  check comes first.
\<close>

theorem admission_physics_counterexample:
  "fst (is_valid test_env ''https://physics.uci.edu/x'' initial_state) = Inr False \<and>
   rejection_stats (snd (is_valid test_env ''https://physics.uci.edu/x'' initial_state)) ''blocked_domain'' = 0 \<and>
   rejection_stats (snd (is_valid test_env ''https://physics.uci.edu/x'' initial_state)) ''bad_domain'' = 1"
  by code_simp

text \<open>
  C5, amended. From the initial module state the three calls of the scenario, one after
  the other, return false, false and true; the first rejection is counted under
  \<open>bad_domain\<close>, the second under \<open>ext_pdf\<close>, and none under \<open>blocked_domain\<close>.
\<close>

theorem admission_scenario:
  "fst (run_is_valid E [''https://physics.uci.edu/x'', ''https://ics.uci.edu/paper.pdf'',
                        ''https://ics.uci.edu/courses/cs101/''] initial_state)
     = [Inr False, Inr False, Inr True] \<and>
   rejection_stats (snd (is_valid E ''https://physics.uci.edu/x'' initial_state)) ''bad_domain'' = 1 \<and>
   rejection_stats (snd (is_valid E ''https://physics.uci.edu/x'' initial_state)) ''blocked_domain'' = 0 \<and>
   rejection_stats (snd (is_valid E ''https://ics.uci.edu/paper.pdf''
                           (snd (is_valid E ''https://physics.uci.edu/x'' initial_state)))) ''ext_pdf'' = 1"
  by code_simp

section \<open>Date segments and the calendar patterns\<close>

text \<open>
  C4. The last calendar pattern of the source is the text \<open>/\\d{4}/\\d{2}/\\d{2}\<close>, in
  which each doubled backslash stands for a literal backslash and \<open>d{4}\<close> for four
  letters d. A URL with the date segment \<open>/2024/01/15\<close> matches no calendar pattern:
  \<open>is_valid\<close> accepts it and counts no \<open>calendar_event\<close> rejection.
\<close>

theorem date_path_not_rejected:
  "is_calendar_or_event ''https://ics.uci.edu/2024/01/15'' = Inr False \<and>
   fst (is_valid test_env ''https://ics.uci.edu/2024/01/15'' initial_state) = Inr True \<and>
   rejection_stats (snd (is_valid test_env ''https://ics.uci.edu/2024/01/15'' initial_state)) ''calendar_event'' = 0"
  by code_simp

section \<open>Whitespace in the extracted text\<close>

text \<open>
  C8. The extractor's pattern is the text \<open>s+\<close>, runs of the letter s, not runs of
  whitespace. On a page whose only text is \<open>glass  house\<close> the two spaces stay and
  each run of the letter s becomes a space.
\<close>

theorem extract_text_replaces_s:
  "fst (extract_text_content_from_soup
          [Tag ''html'' [] [Tag ''body'' [] [Tag ''p'' [] [Text ''glass  house'']]]]) = ''gla   hou e''"
  by code_simp
section \<open>Politeness\<close>


lemma keyed_add_to_domain_queue:
  assumes "keyed F"
  shows "keyed (add_to_domain_queue url F)"
proof -
  define q0 where "q0 = (case map_of (domain_queues F) (get_domain url) of None \<Rightarrow> [] | Some q \<Rightarrow> q)"
  have dq: "domain_queues (add_to_domain_queue url F) =
      AList.update (get_domain url) (q0 @ [url]) (domain_queues F)"
    by (simp add: add_to_domain_queue_def Let_def q0_def)
  have dist: "distinct (map fst (AList.update (get_domain url) (q0 @ [url]) (domain_queues F)))"
    using assms by (simp add: keyed_def distinct_update)
  have inner: "get_domain u = d"
    if m: "map_of (AList.update (get_domain url) (q0 @ [url]) (domain_queues F)) d = Some q"
      and u: "u \<in> set q"
    for d q u
  proof (cases "d = get_domain url")
    case True
    with m have q: "q = q0 @ [url]" by (simp add: update_conv')
    show ?thesis
    proof (cases "u = url")
      case True
      with \<open>d = get_domain url\<close> show ?thesis by simp
    next
      case False
      with u q have "u \<in> set q0" by simp
      then obtain q1 where "map_of (domain_queues F) (get_domain url) = Some q1" "u \<in> set q1"
        unfolding q0_def by (cases "map_of (domain_queues F) (get_domain url)") auto
      with assms True show ?thesis unfolding keyed_def by blast
    qed
  next
    case False
    with m have "map_of (domain_queues F) d = Some q" by (simp add: update_conv')
    with assms u show ?thesis unfolding keyed_def by blast
  qed
  show ?thesis
    unfolding keyed_def dq
  proof (intro conjI allI impI)
    show "distinct (map fst (AList.update (get_domain url) (q0 @ [url]) (domain_queues F)))"
      by (rule dist)
  next
    fix d q u
    assume "map_of (AList.update (get_domain url) (q0 @ [url]) (domain_queues F)) d = Some q \<and> u \<in> set q"
    then show "get_domain u = d" using inner by blast
  qed
qed

lemma keyed_add_url: "keyed F \<Longrightarrow> keyed (add_url E url F)"
proof -
  assume k: "keyed F"
  have "keyed (F\<lparr>save := sv\<rparr>)" for sv using k by (simp add: keyed_def)
  then have "keyed (add_to_domain_queue u (F\<lparr>save := sv\<rparr>))" for u sv
    by (rule keyed_add_to_domain_queue)
  then have "keyed ((add_to_domain_queue u (F\<lparr>save := sv\<rparr>))\<lparr>urls_seen := X\<rparr>)" for u sv X
    by (simp add: keyed_def)
  with k show ?thesis by (simp add: add_url_def Let_def)
qed

lemma keyed_mark_url_complete: "keyed F \<Longrightarrow> keyed (mark_url_complete E url F)"
  by (simp add: keyed_def mark_url_complete_def)

lemma keyed_foldl_add_url: "keyed F \<Longrightarrow> keyed (foldl (\<lambda>F url. add_url E url F) F urls)"
  by (induction urls arbitrary: F) (simp_all add: keyed_add_url)

lemma keyed_parse_entries:
  "keyed F \<Longrightarrow> parse_entries E entries F g = (Inr F', g') \<Longrightarrow> keyed F'"
proof (induction entries arbitrary: F g)
  case Nil
  then show ?case by simp
next
  case (Cons entry entries)
  obtain url completed where e: "entry = (url, completed)" by (cases entry)
  have k1: "keyed ((add_to_domain_queue url F)\<lparr>urls_seen := X\<rparr>)" for X
    using keyed_add_to_domain_queue [OF Cons.prems(1), of url] by (simp add: keyed_def)
  show ?case
  proof (cases completed)
    case True
    with Cons e show ?thesis by simp
  next
    case False
    obtain r g1 where v: "is_valid E url g = (r, g1)" by (cases "is_valid E url g")
    with Cons.prems(2) e False obtain ok where r: "r = Inr ok" by (cases r) auto
    show ?thesis
    proof (cases ok)
      case True
      with Cons.prems(2) e False v r
      have "parse_entries E entries
              ((add_to_domain_queue url F)\<lparr>urls_seen := insert (normalize E url) (urls_seen (add_to_domain_queue url F))\<rparr>) g1
            = (Inr F', g')"
        by (simp add: Let_def)
      with Cons.IH k1 show ?thesis by blast
    next
      case ok_False: False
      with Cons.prems(2) e False v r have "parse_entries E entries F g1 = (Inr F', g')" by simp
      with Cons.IH Cons.prems(1) show ?thesis by blast
    qed
  qed
qed

lemma keyed_Frontier_init:
  assumes "Frontier_init E cfg restart disk g = (Inr F0, g')"
  shows "keyed F0"
proof -
  define F00 where "F00 = \<lparr>domain_queues = [], last_access_time = Map.empty, urls_seen = {},
      save = (case (if disk \<noteq> None \<and> restart then None else disk) of None \<Rightarrow> [] | Some shelf \<Rightarrow> shelf)\<rparr>"
  have k0: "keyed F00" by (simp add: keyed_def F00_def)
  show ?thesis
  proof (cases restart)
    case True
    with assms have "F0 = foldl (\<lambda>F url. add_url E url F) F00 (seed_urls cfg)"
      by (simp add: Frontier_init_def Let_def F00_def)
    with k0 show ?thesis by (simp add: keyed_foldl_add_url)
  next
    case False
    obtain r g1 where p: "parse_save_file E F00 g = (r, g1)" by (cases "parse_save_file E F00 g")
    with assms False obtain F1 where r: "r = Inr F1"
      by (cases r) (auto simp: Frontier_init_def Let_def F00_def)
    from p r have "keyed F1" using keyed_parse_entries [OF k0] by (simp add: parse_save_file_def)
    moreover from assms False p r
    have "F0 = F1 \<or> F0 = foldl (\<lambda>F url. add_url E url F) F1 (seed_urls cfg)"
      by (auto simp: Frontier_init_def Let_def F00_def split: if_splits)
    ultimately show ?thesis by (auto simp: keyed_foldl_add_url)
  qed
qed

lemma last_access_time_foldl_add_url [simp]:
  "last_access_time (foldl (\<lambda>F url. add_url E url F) F urls) = last_access_time F"
  by (induction urls arbitrary: F) (simp_all add: add_url_def Let_def)

lemma get_tbd_url_Some:
  assumes "keyed F" and "get_tbd_url cfg t F = (Some u, F')"
  shows "time_delay cfg \<le> t - (case last_access_time F (get_domain u) of None \<Rightarrow> 0 | Some t0 \<Rightarrow> t0)"
    and "last_access_time F' = (last_access_time F)(get_domain u \<mapsto> t)"
    and "keyed F'"
proof -
  from assms(2) obtain d rest more where
      rd: "ready_domains cfg t F = (d, u # rest) # more"
      and F': "F' = F\<lparr>domain_queues := AList.update d rest (domain_queues F),
                      last_access_time := (last_access_time F)(d \<mapsto> t)\<rparr>"
    by (auto simp: get_tbd_url_def split: list.splits)
  have "(d, u # rest) \<in> set (ready_domains cfg t F)" by (simp add: rd)
  then have mem: "(d, u # rest) \<in> set (domain_queues F)"
      and gate: "time_delay cfg \<le> t - (case last_access_time F d of None \<Rightarrow> 0 | Some t0 \<Rightarrow> t0)"
    by (auto simp: ready_domains_def)
  from assms(1) mem have look: "map_of (domain_queues F) d = Some (u # rest)"
    by (simp add: keyed_def)
  have dom: "get_domain u = d"
    using assms(1) look unfolding keyed_def by (metis list.set_intros(1))
  from gate dom show "time_delay cfg \<le> t - (case last_access_time F (get_domain u) of None \<Rightarrow> 0 | Some t0 \<Rightarrow> t0)"
    by simp
  from F' dom show "last_access_time F' = (last_access_time F)(get_domain u \<mapsto> t)" by simp
  have "get_domain v = d'"
    if m: "map_of (AList.update d rest (domain_queues F)) d' = Some q" and v: "v \<in> set q" for d' q v
  proof (cases "d' = d")
    case True
    with m have "q = rest" by (simp add: update_conv')
    with v have "v \<in> set (u # rest)" by simp
    with assms(1) look True show ?thesis unfolding keyed_def by blast
  next
    case False
    with m have "map_of (domain_queues F) d' = Some q" by (simp add: update_conv')
    with assms(1) v show ?thesis unfolding keyed_def by blast
  qed
  note inner = this
  have dq: "domain_queues F' = AList.update d rest (domain_queues F)" using F' by simp
  have dist: "distinct (map fst (AList.update d rest (domain_queues F)))"
    using assms(1) by (simp add: keyed_def distinct_update)
  show "keyed F'" unfolding keyed_def dq using dist inner by blast
qed

lemma get_tbd_url_None: "get_tbd_url cfg t F = (None, F') \<Longrightarrow> F' = F"
  by (auto simp: get_tbd_url_def split: list.splits)

lemma separated_snoc:
  assumes "separated cfg evs"
      and "\<And>t0 u0. (t0, u0) \<in> set evs \<Longrightarrow> get_domain u0 = get_domain u \<Longrightarrow> time_delay cfg \<le> t - t0"
  shows "separated cfg (evs @ [(t, u)])"
  unfolding separated_def
proof (intro allI impI)
  fix i j
  assume h: "i < j \<and> j < length (evs @ [(t, u)]) \<and>
      get_domain (snd ((evs @ [(t, u)]) ! i)) = get_domain (snd ((evs @ [(t, u)]) ! j))"
  show "time_delay cfg \<le> fst ((evs @ [(t, u)]) ! j) - fst ((evs @ [(t, u)]) ! i)"
  proof (cases "j < length evs")
    case True
    with h have "i < length evs" by simp
    with True h assms(1) show ?thesis unfolding separated_def by (simp add: nth_append)
  next
    case False
    with h have j: "j = length evs" and i: "i < length evs" by auto
    from i have "evs ! i \<in> set evs" by simp
    then have "(fst (evs ! i), snd (evs ! i)) \<in> set evs" by simp
    moreover from h i j have "get_domain (snd (evs ! i)) = get_domain u" by (simp add: nth_append)
    ultimately have "time_delay cfg \<le> t - fst (evs ! i)" by (rule assms(2))
    with i j show ?thesis by (simp add: nth_append)
  qed
qed

lemma run_calls_polite:
  "keyed F \<Longrightarrow> recorded F evs \<Longrightarrow> separated cfg evs \<Longrightarrow>
   run_calls E cfg calls F evs = (F', evs') \<Longrightarrow> 0 \<le> time_delay cfg \<Longrightarrow>
   keyed F' \<and> recorded F' evs' \<and> separated cfg evs'"
proof (induction E cfg calls F evs rule: run_calls.induct)
  case (1 E cfg F evs)
  then show ?case by simp
next
  case (2 E cfg u cs F evs)
  have "recorded (add_url E u F) evs"
    using "2.prems"(2) by (simp add: recorded_def add_url_def Let_def)
  with 2 show ?case by (simp add: keyed_add_url)
next
  case (3 E cfg u cs F evs)
  have "recorded (mark_url_complete E u F) evs"
    using "3.prems"(2) by (simp add: recorded_def mark_url_complete_def)
  with 3 show ?case by (simp add: keyed_mark_url_complete)
next
  case (4 E cfg t cs F evs)
  obtain r F1 where g: "get_tbd_url cfg t F = (r, F1)" by (cases "get_tbd_url cfg t F")
  show ?case
  proof (cases r)
    case None
    with g have "F1 = F" by (simp add: get_tbd_url_None)
    with 4 g None show ?thesis by simp
  next
    case (Some u)
    note k = get_tbd_url_Some [OF "4.prems"(1) g [unfolded Some]]
    have gate: "time_delay cfg \<le> t - t0" if "(t0, u0) \<in> set evs" "get_domain u0 = get_domain u" for t0 u0
    proof -
      from "4.prems"(2) that obtain t' where "last_access_time F (get_domain u) = Some t'" "t0 \<le> t'"
        unfolding recorded_def by metis
      with k(1) show ?thesis by simp
    qed
    have rec: "recorded F1 (evs @ [(t, u)])"
      unfolding recorded_def
    proof (intro allI impI)
      fix t0 u0
      assume "(t0, u0) \<in> set (evs @ [(t, u)])"
      then consider "(t0, u0) \<in> set evs" | "t0 = t" "u0 = u" by auto
      then show "\<exists>t'. last_access_time F1 (get_domain u0) = Some t' \<and> t0 \<le> t'"
      proof cases
        case 1
        with "4.prems"(2) obtain t' where l: "last_access_time F (get_domain u0) = Some t'" "t0 \<le> t'"
          unfolding recorded_def by metis
        show ?thesis
        proof (cases "get_domain u0 = get_domain u")
          case True
          with 1 gate have "time_delay cfg \<le> t - t0" by blast
          with "4.prems"(5) True k(2) show ?thesis by simp
        next
          case False
          with l k(2) show ?thesis by simp
        qed
      next
        case 2
        with k(2) show ?thesis by simp
      qed
    qed
    have sep: "separated cfg (evs @ [(t, u)])"
      using "4.prems"(3) gate by (rule separated_snoc)
    from "4.prems"(4) g Some have "run_calls E cfg cs F1 (evs @ [(t, u)]) = (F', evs')" by simp
    with "4.IH"(2) [OF g [unfolded Some, symmetric] refl k(3) rec sep _ "4.prems"(5)] show ?thesis by simp
  qed
qed

text \<open>
  C1. Take a frontier as its constructor leaves it, any sequence of \<open>add_url\<close>,
  \<open>mark_url_complete\<close> and \<open>get_tbd_url\<close> calls on it, and a politeness delay that
  is not negative. Any two URLs of one host that \<open>get_tbd_url\<close> returned were
  returned at times at least the delay apart. On the frontier reached, \<open>get_tbd_url\<close>
  returns a URL of host h only when the current time minus the last access time of h
  (0 when h was never accessed) is at least the delay, and it sets the last access time
  of h to the current time.
\<close>

theorem politeness:
  assumes "0 \<le> time_delay cfg"
      and "Frontier_init E cfg restart disk g = (Inr F0, g')"
      and "run_calls E cfg calls F0 [] = (F, evs)"
  shows "(\<forall>i j. i < j \<and> j < length evs \<and> get_domain (snd (evs ! i)) = get_domain (snd (evs ! j))
             \<longrightarrow> time_delay cfg \<le> fst (evs ! j) - fst (evs ! i)) \<and>
         (\<forall>t u F'. get_tbd_url cfg t F = (Some u, F') \<longrightarrow>
             time_delay cfg \<le> t - (case last_access_time F (get_domain u) of None \<Rightarrow> 0 | Some t0 \<Rightarrow> t0) \<and>
             last_access_time F' (get_domain u) = Some t)"
proof -
  have k0: "keyed F0" using assms(2) by (rule keyed_Frontier_init)
  have "recorded F0 []" "separated cfg []" by (simp_all add: recorded_def separated_def)
  with run_calls_polite [OF k0 _ _ assms(3) assms(1)]
  have k: "keyed F" and s: "separated cfg evs" by blast+
  from s have "\<forall>i j. i < j \<and> j < length evs \<and> get_domain (snd (evs ! i)) = get_domain (snd (evs ! j))
             \<longrightarrow> time_delay cfg \<le> fst (evs ! j) - fst (evs ! i)"
    by (simp add: separated_def)
  moreover have "\<forall>t u F'. get_tbd_url cfg t F = (Some u, F') \<longrightarrow>
             time_delay cfg \<le> t - (case last_access_time F (get_domain u) of None \<Rightarrow> 0 | Some t0 \<Rightarrow> t0) \<and>
             last_access_time F' (get_domain u) = Some t"
  proof (intro allI impI)
    fix t u F'
    assume g: "get_tbd_url cfg t F = (Some u, F')"
    from get_tbd_url_Some(1) [OF k g] get_tbd_url_Some(2) [OF k g]
    show "time_delay cfg \<le> t - (case last_access_time F (get_domain u) of None \<Rightarrow> 0 | Some t0 \<Rightarrow> t0) \<and>
             last_access_time F' (get_domain u) = Some t"
      by simp
  qed
  ultimately show ?thesis by blast
qed

theorem politeness_witness:
  "0 \<le> time_delay polite_config \<and>
   Frontier_init test_env polite_config True None initial_state = (Inr polite_frontier, initial_state) \<and>
   snd (run_calls test_env polite_config
          [Get_tbd_url 1000, Get_tbd_url (1000 + 1 / 5), Get_tbd_url (1000 + 3 / 5)] polite_frontier [])
     = [(1000, ''https://cs.uci.edu/1''), (1000 + 3 / 5, ''https://cs.uci.edu/2'')] \<and>
   time_delay polite_config \<le> (1000 + 3 / 5) - 1000"
proof -
  let ?calls = "[Get_tbd_url 1000, Get_tbd_url (1000 + 1 / 5), Get_tbd_url (1000 + 3 / 5)]"
  let ?evs = "[(1000 :: real, ''https://cs.uci.edu/1''), (1000 + 3 / 5, ''https://cs.uci.edu/2'')]"
  have d1: "get_domain ''https://cs.uci.edu/1'' = ''cs.uci.edu''" by code_simp
  have d2: "get_domain ''https://cs.uci.edu/2'' = ''cs.uci.edu''" by code_simp
  have h1: "0 \<le> time_delay polite_config" by (simp add: polite_config_def)
  have h2: "Frontier_init test_env polite_config True None initial_state = (Inr polite_frontier, initial_state)"
    by (simp add: Frontier_init_def polite_config_def polite_frontier_def add_url_def
        add_to_domain_queue_def Let_def test_env_def d1 d2)
  have evs: "snd (run_calls test_env polite_config ?calls polite_frontier []) = ?evs"
    by (simp add: get_tbd_url_def ready_domains_def polite_config_def polite_frontier_def)
  then have h3: "run_calls test_env polite_config ?calls polite_frontier [] =
      (fst (run_calls test_env polite_config ?calls polite_frontier []), ?evs)"
    by (metis prod.collapse)
  from politeness [OF h1 h2 h3]
  have "\<forall>i j. i < j \<and> j < length ?evs \<and> get_domain (snd (?evs ! i)) = get_domain (snd (?evs ! j))
          \<longrightarrow> time_delay polite_config \<le> fst (?evs ! j) - fst (?evs ! i)"
    by blast
  then have "(0::nat) < 1 \<and> 1 < length ?evs \<and> get_domain (snd (?evs ! 0)) = get_domain (snd (?evs ! 1))
          \<longrightarrow> time_delay polite_config \<le> fst (?evs ! 1) - fst (?evs ! 0)"
    by blast
  then have "time_delay polite_config \<le> (1000 + 3 / 5) - 1000"
    by (simp add: d1 d2)
  with h1 h2 evs show ?thesis by blast
qed
section \<open>URLs that differ in a number\<close>



lemma digits_Cons [simp]: "digits (d # ds) = (is_digit d \<and> digits ds)"
  by (simp add: digits_def)

lemma digits_Nil [simp]: "digits []"
  by (simp add: digits_def)

lemma digits_not_mem: "digits ds \<Longrightarrow> \<not> is_digit c \<Longrightarrow> c \<notin> set ds"
  by (induction ds) auto

lemma partition_first_None: "c \<notin> set s \<Longrightarrow> partition_first c s = None"
  by (induction s) auto

lemma partition_last_None: "c \<notin> set s \<Longrightarrow> partition_last c s = None"
  by (simp add: partition_last_def partition_first_None)

lemma split_on_absent: "c \<notin> set s \<Longrightarrow> split_on c s = [s]"
  by (induction s) auto

lemma filter_digits: "digits ds \<Longrightarrow> (\<And>c. c \<in> X \<Longrightarrow> \<not> is_digit c) \<Longrightarrow> filter (\<lambda>c. c \<notin> X) ds = ds"
  by (induction ds) auto

lemma lower_digits: "digits ds \<Longrightarrow> lower ds = ds"
  by (induction ds) (auto simp: lower_def lower_char_def is_digit_def Let_def)

lemma lower_Cons: "lower (c # s) = lower_char c # lower s"
  by (simp add: lower_def)

lemma atom_nondigit: "nondigit_atom a \<Longrightarrow> is_digit d \<Longrightarrow> \<not> atom_matches a d"
  by (cases a) (auto simp: atom_matches_def list_all_iff is_digit_def is_space_def)

lemma rmatch_digits_One:
  "digits ds \<Longrightarrow> nondigit_atom a \<Longrightarrow> rmatch (Atom a One # r) ds = None"
  by (cases ds) (auto simp: atom_nondigit)

lemma search_items_digits:
  "digits ds \<Longrightarrow> nondigit_atom a \<Longrightarrow> \<not> search_items (Atom a One # r) ds"
  by (induction ds) (auto simp: atom_nondigit)

lemma sub_items_digits:
  "digits ds \<Longrightarrow> nondigit_atom a \<Longrightarrow> sub_items (Atom a One # r) repl ds = ds"
  by (induction ds) (auto simp: atom_nondigit)

lemma startswith_digits:
  "digits ds \<Longrightarrow> \<not> is_digit c \<Longrightarrow> \<not> startswith ds (c # p)"
  by (cases ds) auto

lemma contains_digits:
  "digits ds \<Longrightarrow> \<not> is_digit c \<Longrightarrow> \<not> contains ds (c # p)"
  by (induction ds) auto

lemmas eval_defs = re_search_def re_compile_def parse_quant_def is_special_def BS_def
  atom_matches_def is_ascii_alpha_def is_digit_def code_of_def



lemma remove_unsafe_Cons:
  "remove_unsafe (c # s) =
     (if c = CHR 0x09 \<or> c = CHR 0x0D \<or> c = CHR 0x0A then remove_unsafe s else c # remove_unsafe s)"
  by (simp add: remove_unsafe_def)

lemma remove_unsafe_digits: "digits ds \<Longrightarrow> remove_unsafe ds = ds"
  by (induction ds) (auto simp: remove_unsafe_def is_digit_def code_of_def)

lemma partition_first_digits: "digits ds \<Longrightarrow> \<not> is_digit c \<Longrightarrow> partition_first c ds = None"
  by (simp add: partition_first_None digits_not_mem)

lemma mem_digits: "digits ds \<Longrightarrow> \<not> is_digit c \<Longrightarrow> (c \<in> set ds) = False"
  by (simp add: digits_not_mem)

lemma split_on_digits: "digits ds \<Longrightarrow> \<not> is_digit c \<Longrightarrow> split_on c ds = [ds]"
  by (simp add: split_on_absent digits_not_mem)

lemma cal_P:
  assumes "digits ds"
  shows "re_any CALENDAR_PATTERNS (numbered_url ds) = Inr False"
  using assms
  by (simp add: numbered_url_def CALENDAR_PATTERNS_def eval_defs rmatch_digits_One search_items_digits)

lemma trap_P:
  assumes "digits ds"
  shows "re_any TRAP_PATTERNS (numbered_url ds) = Inr False"
  using assms
  by (simp add: numbered_url_def TRAP_PATTERNS_def eval_defs rmatch_digits_One search_items_digits)

lemma legit_P:
  assumes "digits ds"
  shows "re_any LEGITIMATE_PATTERNS (numbered_url ds) = Inr False"
  using assms
  by (simp add: numbered_url_def LEGITIMATE_PATTERNS_def eval_defs rmatch_digits_One search_items_digits)

lemma urlparse_P:
  assumes "digits ds"
  shows "urlparse (numbered_url ds) =
    Inr \<lparr>scheme = ''https'', netloc = ''stat.uci.edu'', path = ''/x/'' @ ds, params = [],
         query = [], fragment = []\<rparr>"
  using assms
  by (simp add: numbered_url_def urlparse_def urlsplit_def split_scheme_def splitnetloc_def scheme_chars_def
      uses_params_def lower_def lower_char_def Let_def eval_defs
      remove_unsafe_Cons remove_unsafe_digits partition_first_digits mem_digits)

lemma lower_P:
  assumes "digits ds"
  shows "lower (numbered_url ds) = numbered_url ds"
  using assms
  by (simp add: numbered_url_def lower_Cons lower_digits lower_char_def code_of_def)

lemma pattern_P:
  assumes "digits ds"
  shows "get_url_pattern E (numbered_url ds) = ''stat.uci.edu/x/'' @ ds @ ''?''"
  using assms
  by (simp add: get_url_pattern_def get_url_pattern_try_def urlparse_P is_legitimate_pattern_def
      lower_P legit_P bindE_def re_sub_def eval_defs sub_items_digits)

lemma is_url_trap_P:
  assumes "digits ds" and "ds \<noteq> []"
  shows "is_url_trap E (numbered_url ds) s =
    (if 75 < url_pattern_counter s (''stat.uci.edu/x/'' @ ds @ ''?'') + 1
     then (Inr True,
           s\<lparr>url_pattern_counter := (url_pattern_counter s)
               (''stat.uci.edu/x/'' @ ds @ ''?'' := url_pattern_counter s (''stat.uci.edu/x/'' @ ds @ ''?'') + 1)\<rparr>)
     else (Inr (15 < domain_path_counter s ''stat.uci.edu'' (''/x/'' @ ds) + 1),
           s\<lparr>url_pattern_counter := (url_pattern_counter s)
               (''stat.uci.edu/x/'' @ ds @ ''?'' := url_pattern_counter s (''stat.uci.edu/x/'' @ ds @ ''?'') + 1),
             domain_path_counter := (domain_path_counter s)
               (''stat.uci.edu'' := (domain_path_counter s ''stat.uci.edu'')
                  (''/x/'' @ ds := domain_path_counter s ''stat.uci.edu'' (''/x/'' @ ds) + 1))\<rparr>))"
  using assms
  by (simp add: is_url_trap_def try_except_def is_url_trap_try_def urlparse_P
      is_legitimate_pattern_def lower_P legit_P pattern_P pagination_trap_def filter_combination_def
      MAX_PATH_DEPTH_def split_on_digits is_digit_def code_of_def Let_def)


lemma is_valid_P:
  assumes "digits ds" and "ds \<noteq> []" and "length ds \<le> 500"
  shows "is_valid E (numbered_url ds) s =
    (if fst (is_url_trap E (numbered_url ds) s) = Inr True
     then (Inr False, log_rejection ''url_trap'' (numbered_url ds) False (snd (is_url_trap E (numbered_url ds) s)))
     else (Inr True, snd (is_url_trap E (numbered_url ds) s)))"
proof -
  obtain b s1 where t: "is_url_trap E (numbered_url ds) s = (Inr b, s1)"
    using is_url_trap_returns by blast
  have len: "\<not> MAX_URL_LENGTH < length (numbered_url ds)"
    using assms(3) by (simp add: numbered_url_def MAX_URL_LENGTH_def)
  have dom: "list_ex (\<lambda>d. lower ''stat.uci.edu'' = d \<or> endswith (lower ''stat.uci.edu'') (''.'' @ d)) VALID_DOMAINS"
    by (simp add: VALID_DOMAINS_def lower_def lower_char_def code_of_def)
  have blk: "\<not> list_ex (\<lambda>b. lower ''stat.uci.edu'' = b \<or> endswith (lower ''stat.uci.edu'') (''.'' @ b)) blocked"
    by (simp add: blocked_def lower_def lower_char_def code_of_def endswith_def)
  have ext: "rejected_extension (lower (''/x/'' @ ds)) = None"
    using assms(1)
    by (simp add: rejected_extension_def lower_Cons lower_digits lower_char_def code_of_def
        partition_last_None mem_digits is_digit_def)
  have act: "\<not> list_ex (\<lambda>x. contains (lower (numbered_url ds)) x)
      [''/search?'', ''?search='', ''/print/'', ''?print='']"
    using assms(1)
    by (simp add: lower_P) (simp add: numbered_url_def contains_digits startswith_digits is_digit_def code_of_def)
  show ?thesis
    using assms(1) t len dom blk ext act
    by (simp add: is_valid_def try_except_def is_valid_try_def urlparse_P is_calendar_or_event_def
        is_known_trap_def lower_P cal_P trap_P Let_def)
qed


lemma run_numbered:
  "distinct dss \<Longrightarrow>
   (\<forall>ds \<in> set dss. digits ds \<and> ds \<noteq> [] \<and> length ds \<le> 500 \<and>
      url_pattern_counter s (''stat.uci.edu/x/'' @ ds @ ''?'') = 0 \<and>
      domain_path_counter s ''stat.uci.edu'' (''/x/'' @ ds) = 0) \<Longrightarrow>
   fst (run_is_valid E (map numbered_url dss) s) = map (\<lambda>ds. Inr True) dss"
proof (induction dss arbitrary: s)
  case Nil
  then show ?case by simp
next
  case (Cons ds dss)
  define s2 where "s2 = snd (is_url_trap E (numbered_url ds) s)"
  from Cons.prems have d: "digits ds" "ds \<noteq> []" "length ds \<le> 500"
      and z: "url_pattern_counter s (''stat.uci.edu/x/'' @ ds @ ''?'') = 0"
             "domain_path_counter s ''stat.uci.edu'' (''/x/'' @ ds) = 0"
    by auto
  have t: "is_url_trap E (numbered_url ds) s = (Inr False,
      s\<lparr>url_pattern_counter := (url_pattern_counter s)(''stat.uci.edu/x/'' @ ds @ ''?'' := 1),
        domain_path_counter := (domain_path_counter s)
          (''stat.uci.edu'' := (domain_path_counter s ''stat.uci.edu'')(''/x/'' @ ds := 1))\<rparr>)"
    using z by (simp add: is_url_trap_P [OF d(1,2)])
  then have v: "is_valid E (numbered_url ds) s = (Inr True, s2)"
    by (simp add: is_valid_P [OF d] s2_def)
  have "\<forall>ds' \<in> set dss. digits ds' \<and> ds' \<noteq> [] \<and> length ds' \<le> 500 \<and>
      url_pattern_counter s2 (''stat.uci.edu/x/'' @ ds' @ ''?'') = 0 \<and>
      domain_path_counter s2 ''stat.uci.edu'' (''/x/'' @ ds') = 0"
    using Cons.prems t by (auto simp: s2_def)
  moreover from Cons.prems have "distinct dss" by simp
  ultimately have "fst (run_is_valid E (map numbered_url dss) s2) = map (\<lambda>ds. Inr True) dss"
    by (rule Cons.IH [rotated])
  with v show ?case by (cases "run_is_valid E (map numbered_url dss) s2") simp
qed

lemma numbers76_ok:
  "distinct numbers76 \<and> (\<forall>ds \<in> set numbers76. digits ds \<and> ds \<noteq> [] \<and> length ds \<le> 500)"
  by code_simp

text \<open>
  C3. The pattern of a URL keeps the digits of its path: the source's substitution
  pattern is the text \<open>\\d+\<close>, a literal backslash followed by letters d. The URLs
  \<open>https://stat.uci.edu/x/1\<close> to \<open>https://stat.uci.edu/x/76\<close> have 76 different
  patterns, and 76 calls of \<open>is_valid\<close> on them from the initial module state all
  return true, the 76th as well.
\<close>

theorem numbered_urls_all_valid:
  "get_url_pattern test_env (numbered_url ''1'') = ''stat.uci.edu/x/1?'' \<and>
   get_url_pattern test_env (numbered_url ''2'') = ''stat.uci.edu/x/2?'' \<and>
   length (map numbered_url numbers76) = 76 \<and>
   fst (run_is_valid test_env (map numbered_url numbers76) initial_state) = replicate 76 (Inr True)"
proof -
  have p1: "get_url_pattern test_env (numbered_url ''1'') = ''stat.uci.edu/x/1?''"
    by (simp add: pattern_P is_digit_def code_of_def)
  have p2: "get_url_pattern test_env (numbered_url ''2'') = ''stat.uci.edu/x/2?''"
    by (simp add: pattern_P is_digit_def code_of_def)
  have len: "length numbers76 = 76" by (simp add: numbers76_def)
  have "fst (run_is_valid test_env (map numbered_url numbers76) initial_state)
      = map (\<lambda>ds. Inr True) numbers76"
    using numbers76_ok by (intro run_numbered) (simp_all add: initial_state_def)
  also have "\<dots> = replicate 76 (Inr True)"
    using len by (simp add: map_replicate_const)
  finally show ?thesis using p1 p2 len by simp
qed
section \<open>Loading the save file\<close>

lemma cal_Q:
  assumes "digits ds"
  shows "re_any CALENDAR_PATTERNS (queried_url ds) = Inr False"
  using assms
  by (simp add: queried_url_def CALENDAR_PATTERNS_def eval_defs rmatch_digits_One search_items_digits)

lemma trap_Q:
  assumes "digits ds"
  shows "re_any TRAP_PATTERNS (queried_url ds) = Inr False"
  using assms
  by (simp add: queried_url_def TRAP_PATTERNS_def eval_defs rmatch_digits_One search_items_digits)

lemma legit_Q:
  assumes "digits ds"
  shows "re_any LEGITIMATE_PATTERNS (queried_url ds) = Inr False"
  using assms
  by (simp add: queried_url_def LEGITIMATE_PATTERNS_def eval_defs rmatch_digits_One search_items_digits)

lemma urlparse_Q:
  assumes "digits ds"
  shows "urlparse (queried_url ds) =
    Inr \<lparr>scheme = ''https'', netloc = ''ics.uci.edu'', path = ''/list'', params = [],
         query = ds, fragment = []\<rparr>"
  using assms
  by (simp add: queried_url_def urlparse_def urlsplit_def split_scheme_def splitnetloc_def scheme_chars_def
      uses_params_def lower_def lower_char_def Let_def eval_defs
      remove_unsafe_Cons remove_unsafe_digits partition_first_digits mem_digits)

lemma lower_Q:
  assumes "digits ds"
  shows "lower (queried_url ds) = queried_url ds"
  using assms
  by (simp add: queried_url_def lower_Cons lower_digits lower_char_def code_of_def)

lemma parse_qs_digits:
  assumes "digits ds"
  shows "parse_qs E ds = []"
  using assms
  by (simp add: parse_qs_def parse_qsl_def split_on_digits partition_first_digits is_digit_def code_of_def)

lemma pattern_Q:
  assumes "digits ds"
  shows "get_url_pattern E (queried_url ds) = ''ics.uci.edu/list?''"
  using assms
  by (simp add: get_url_pattern_def get_url_pattern_try_def urlparse_Q is_legitimate_pattern_def
      lower_Q legit_Q bindE_def re_sub_def eval_defs parse_qs_digits sorted_strs_def)

lemma is_url_trap_Q:
  assumes "digits ds" and "ds \<noteq> []" and "length ds \<le> 200"
  shows "is_url_trap E (queried_url ds) s =
    (if 75 < url_pattern_counter s ''ics.uci.edu/list?'' + 1
     then (Inr True,
           s\<lparr>url_pattern_counter := (url_pattern_counter s)
               (''ics.uci.edu/list?'' := url_pattern_counter s ''ics.uci.edu/list?'' + 1)\<rparr>)
     else (Inr (15 < domain_path_counter s ''ics.uci.edu'' ''/list'' + 1), visit_queried s))"
  using assms
  by (simp add: is_url_trap_def try_except_def is_url_trap_try_def urlparse_Q
      is_legitimate_pattern_def lower_Q legit_Q pattern_Q pagination_trap_def parse_qs_digits
      filter_combination_def lower_digits contains_digits visit_queried_def
      MAX_PATH_DEPTH_def is_digit_def code_of_def Let_def)

lemma is_valid_Q:
  assumes "digits ds" and "ds \<noteq> []" and "length ds \<le> 200"
  shows "is_valid E (queried_url ds) s =
    (if fst (is_url_trap E (queried_url ds) s) = Inr True
     then (Inr False, log_rejection ''url_trap'' (queried_url ds) False (snd (is_url_trap E (queried_url ds) s)))
     else (Inr True, snd (is_url_trap E (queried_url ds) s)))"
proof -
  obtain b s1 where t: "is_url_trap E (queried_url ds) s = (Inr b, s1)"
    using is_url_trap_returns by blast
  have len: "\<not> MAX_URL_LENGTH < length (queried_url ds)"
    using assms(3) by (simp add: queried_url_def MAX_URL_LENGTH_def)
  have dom: "list_ex (\<lambda>d. lower ''ics.uci.edu'' = d \<or> endswith (lower ''ics.uci.edu'') (''.'' @ d)) VALID_DOMAINS"
    by (simp add: VALID_DOMAINS_def lower_def lower_char_def code_of_def)
  have blk: "\<not> list_ex (\<lambda>b. lower ''ics.uci.edu'' = b \<or> endswith (lower ''ics.uci.edu'') (''.'' @ b)) blocked"
    by (simp add: blocked_def lower_def lower_char_def code_of_def endswith_def)
  have ext: "rejected_extension (lower ''/list'') = None"
    by (simp add: rejected_extension_def lower_def lower_char_def code_of_def partition_last_None)
  have fmt: "\<not> list_ex (\<lambda>b. contains (lower ds) b)
      [''format=txt'', ''format=pdf'', ''format=csv'', ''export=txt'', ''export=pdf'', ''download='']"
    using assms(1) by (simp add: lower_digits contains_digits is_digit_def code_of_def)
  have act: "\<not> list_ex (\<lambda>x. contains (lower (queried_url ds)) x)
      [''/search?'', ''?search='', ''/print/'', ''?print='']"
    using assms(1)
    by (simp add: lower_Q) (simp add: queried_url_def contains_digits startswith_digits is_digit_def code_of_def)
  show ?thesis
    using assms(1) t len dom blk ext fmt act
    by (simp add: is_valid_def try_except_def is_valid_try_def urlparse_Q is_calendar_or_event_def
        is_known_trap_def lower_Q cal_Q trap_Q Let_def)
qed

lemma visit_queried_counters:
  "url_pattern_counter ((visit_queried ^^ n) s) ''ics.uci.edu/list?'' = url_pattern_counter s ''ics.uci.edu/list?'' + n"
  "domain_path_counter ((visit_queried ^^ n) s) ''ics.uci.edu'' ''/list'' = domain_path_counter s ''ics.uci.edu'' ''/list'' + n"
  by (induction n) (simp_all add: visit_queried_def)

text \<open>An accepted URL of the family, while the path has been counted fewer than 15 times,
  and a rejected one after that.\<close>

lemma is_valid_Q_accepts:
  assumes "digits ds" and "ds \<noteq> []" and "length ds \<le> 200"
      and "url_pattern_counter s ''ics.uci.edu/list?'' < 75"
      and "domain_path_counter s ''ics.uci.edu'' ''/list'' < 15"
  shows "is_valid E (queried_url ds) s = (Inr True, visit_queried s)"
  using assms(4,5) by (simp add: is_valid_Q [OF assms(1-3)] is_url_trap_Q [OF assms(1-3)])

lemma is_valid_Q_rejects:
  assumes "digits ds" and "ds \<noteq> []" and "length ds \<le> 200"
      and "url_pattern_counter s ''ics.uci.edu/list?'' < 75"
      and "15 \<le> domain_path_counter s ''ics.uci.edu'' ''/list''"
  shows "fst (is_valid E (queried_url ds) s) = Inr False"
  using assms(4,5) by (simp add: is_valid_Q [OF assms(1-3)] is_url_trap_Q [OF assms(1-3)])

lemma pending_valid_Q:
  "(\<forall>ds \<in> set dss. digits ds \<and> ds \<noteq> [] \<and> length ds \<le> 200) \<Longrightarrow>
   url_pattern_counter s ''ics.uci.edu/list?'' = domain_path_counter s ''ics.uci.edu'' ''/list'' \<Longrightarrow>
   domain_path_counter s ''ics.uci.edu'' ''/list'' + length dss \<le> 15 \<Longrightarrow>
   pending_valid E (map (\<lambda>ds. (queried_url ds, False)) dss @ rest) s =
     map queried_url dss @ pending_valid E rest ((visit_queried ^^ length dss) s)"
proof (induction dss arbitrary: s)
  case Nil
  then show ?case by simp
next
  case (Cons ds dss)
  from Cons.prems have d: "digits ds" "ds \<noteq> []" "length ds \<le> 200" by auto
  from Cons.prems have c: "url_pattern_counter s ''ics.uci.edu/list?'' < 75"
      "domain_path_counter s ''ics.uci.edu'' ''/list'' < 15" by auto
  have v: "is_valid E (queried_url ds) s = (Inr True, visit_queried s)"
    using d c by (rule is_valid_Q_accepts)
  have "pending_valid E (map (\<lambda>ds. (queried_url ds, False)) dss @ rest) (visit_queried s) =
      map queried_url dss @ pending_valid E rest ((visit_queried ^^ length dss) (visit_queried s))"
    using Cons.prems by (intro Cons.IH) (auto simp: visit_queried_def)
  with v show ?case by (simp add: funpow_swap1)
qed

lemma queued_urls_add_to_domain_queue:
  "queued_urls (add_to_domain_queue url F) = insert url (queued_urls F)"
proof -
  have "(\<Union>(d, q) \<in> set (AList.update k ((case map_of al k of None \<Rightarrow> [] | Some q \<Rightarrow> q) @ [url]) al). set q)
      = insert url (\<Union>(d, q) \<in> set al. set q)" for k and al :: "(string \<times> string list) list"
    by (induction al) auto
  then show ?thesis by (simp add: queued_urls_def add_to_domain_queue_def Let_def)
qed

lemma parse_entries_queued:
  "\<exists>F' g'. parse_entries E entries F g = (Inr F', g') \<and>
     queued_urls F' = queued_urls F \<union> set (pending_valid E entries g) \<and> save F' = save F"
proof (induction entries arbitrary: F g)
  case Nil
  then show ?case by simp
next
  case (Cons entry entries)
  obtain url completed where e: "entry = (url, completed)" by (cases entry)
  show ?case
  proof (cases completed)
    case True
    with Cons.IH [of F g] e show ?thesis by simp
  next
    case False
    obtain ok g1 where v: "is_valid E url g = (Inr ok, g1)"
      using is_valid_returns by blast
    show ?thesis
    proof (cases ok)
      case True
      define F1 where "F1 = (add_to_domain_queue url F)
          \<lparr>urls_seen := insert (normalize E url) (urls_seen (add_to_domain_queue url F))\<rparr>"
      have q1: "queued_urls F1 = insert url (queued_urls F)"
        using queued_urls_add_to_domain_queue [of url F] by (simp add: F1_def queued_urls_def)
      have s1: "save F1 = save F" by (simp add: F1_def)
      from Cons.IH [of F1 g1] obtain F' g' where
          "parse_entries E entries F1 g1 = (Inr F', g')"
          "queued_urls F' = queued_urls F1 \<union> set (pending_valid E entries g1)" "save F' = save F1"
        by blast
      with e False v True q1 s1 show ?thesis by (simp add: Let_def F1_def)
    next
      case ok_False: False
      with Cons.IH [of F g1] e False v show ?thesis by simp
    qed
  qed
qed

lemma pending_valid_subset:
  "set (pending_valid E entries g) \<subseteq> {u. (u, False) \<in> set entries}"
proof (induction entries arbitrary: g)
  case Nil
  then show ?case by simp
next
  case (Cons entry entries)
  obtain url completed where e: "entry = (url, completed)" by (cases entry)
  obtain r g1 where v: "is_valid E url g = (r, g1)" by (cases "is_valid E url g")
  from Cons.IH [of g] Cons.IH [of g1] e v show ?case by auto
qed

lemma restart_loads_pending_valid:
  assumes "shelf \<noteq> []"
  shows "\<exists>F g'. Frontier_init E cfg False (Some shelf) g = (Inr F, g') \<and>
           queued_urls F = set (pending_valid E (map snd shelf) g) \<and>
           (\<forall>u. (u, False) \<notin> set (map snd shelf) \<longrightarrow> u \<notin> queued_urls F)"
proof -
  define F0 where "F0 = \<lparr>domain_queues = [], last_access_time = Map.empty, urls_seen = {}, save = shelf\<rparr>"
  obtain F g' where p: "parse_entries E (map snd shelf) F0 g = (Inr F, g')"
      and q: "queued_urls F = queued_urls F0 \<union> set (pending_valid E (map snd shelf) g)"
      and s: "save F = save F0"
    using parse_entries_queued by blast
  have q0: "queued_urls F0 = {}" by (simp add: queued_urls_def F0_def)
  from s assms have ne: "save F \<noteq> []" by (simp add: F0_def)
  from p ne have "Frontier_init E cfg False (Some shelf) g = (Inr F, g')"
    by (simp add: Frontier_init_def parse_save_file_def Let_def F0_def [symmetric])
  moreover from q q0 have qs: "queued_urls F = set (pending_valid E (map snd shelf) g)" by simp
  moreover from qs pending_valid_subset [of E "map snd shelf" g]
  have "\<forall>u. (u, False) \<notin> set (map snd shelf) \<longrightarrow> u \<notin> queued_urls F" by blast
  ultimately show ?thesis by blast
qed

text \<open>
  C2, as stated, fails. The save file \<open>shelf16\<close> holds the sixteen pending URLs
  \<open>https://ics.uci.edu/list?1\<close> to \<open>https://ics.uci.edu/list?16\<close>. The last one
  satisfies \<open>is_valid\<close> (the call on it from the initial module state returns true) and
  is stored with completed=false, yet the constructor without restart does not enqueue it:
  the fifteen calls before it have counted the path \<open>/list\<close> fifteen times, and the
  trap detector rejects the sixteenth URL of one path.
\<close>

theorem restart_drops_valid_pending_counterexample:
  "fst (is_valid test_env (queried_url ''16'') initial_state) = Inr True \<and>
   (queried_url ''16'', False) \<in> set (map snd shelf16) \<and>
   (case fst (Frontier_init test_env polite_config False (Some shelf16) initial_state) of
      Inl e \<Rightarrow> False
    | Inr F \<Rightarrow> queried_url ''16'' \<notin> queued_urls F \<and>
               queued_urls F = set (map queried_url (take 15 numbers16)))"
proof -
  let ?first = "take 15 numbers76"
  have split: "numbers16 = ?first @ [''16'']" by code_simp
  have ok: "\<forall>ds \<in> set ?first. digits ds \<and> ds \<noteq> [] \<and> length ds \<le> 200" by code_simp
  have d16: "digits ''16''" "''16'' \<noteq> []" "length ''16'' \<le> 200"
    by (simp_all add: is_digit_def code_of_def)
  have alone: "fst (is_valid test_env (queried_url ''16'') initial_state) = Inr True"
    by (simp add: is_valid_Q_accepts [OF d16] initial_state_def)
  have stored: "(queried_url ''16'', False) \<in> set (map snd shelf16)"
    by (simp add: shelf16_def split)
  have entries: "map snd shelf16 =
      map (\<lambda>ds. (queried_url ds, False)) ?first @ [(queried_url ''16'', False)]"
    by (simp add: shelf16_def split)
  have len: "length ?first = 15" by (simp add: numbers76_def)
  have last: "fst (is_valid test_env (queried_url ''16'') ((visit_queried ^^ 15) initial_state)) = Inr False"
    by (rule is_valid_Q_rejects [OF d16]) (simp_all add: visit_queried_counters initial_state_def)
  have "pending_valid test_env (map snd shelf16) initial_state =
      map queried_url ?first @
      pending_valid test_env [(queried_url ''16'', False)] ((visit_queried ^^ length ?first) initial_state)"
    unfolding entries using ok by (intro pending_valid_Q) (simp_all add: initial_state_def len)
  also have "\<dots> = map queried_url ?first"
  proof -
    obtain r g1 where v: "is_valid test_env (queried_url ''16'') ((visit_queried ^^ 15) initial_state) = (r, g1)"
      by (cases "is_valid test_env (queried_url ''16'') ((visit_queried ^^ 15) initial_state)")
    with last have "r = Inr False" by simp
    with v show ?thesis unfolding len by simp
  qed
  finally have pend: "pending_valid test_env (map snd shelf16) initial_state = map queried_url ?first" .
  have absent: "queried_url ''16'' \<notin> set (map queried_url ?first)" by code_simp
  have t15: "take 15 numbers16 = ?first" by (simp add: numbers16_def)
  have ne: "shelf16 \<noteq> []" by (simp add: shelf16_def split)
  from restart_loads_pending_valid [OF ne, of test_env polite_config initial_state] pend
  obtain F g' where "Frontier_init test_env polite_config False (Some shelf16) initial_state = (Inr F, g')"
      and "queued_urls F = set (map queried_url ?first)"
    by auto
  with alone stored absent t15 show ?thesis by simp
qed

text \<open>The frontier writes a shelf of that form: the empty shelf has it, and \<open>add_url\<close>
  and \<open>mark_url_complete\<close> keep it.\<close>

lemma written_shelf_update:
  assumes "written_shelf E shelf"
  shows "written_shelf E (AList.update (get_urlhash E u) (u, c) shelf)"
proof -
  have "set (AList.update k v al) \<subseteq> insert (k, v) (set al)" for k v and al :: "(string \<times> (string \<times> bool)) list"
    by (induction al) auto
  then have "\<forall>(k, (u', c')) \<in> set (AList.update (get_urlhash E u) (u, c) shelf). k = get_urlhash E u'"
    using assms unfolding written_shelf_def by fastforce
  with assms show ?thesis by (simp add: written_shelf_def distinct_update)
qed

lemma written_shelf_empty: "written_shelf E []"
  by (simp add: written_shelf_def)

lemma written_shelf_add_url:
  "written_shelf E (save F) \<Longrightarrow> written_shelf E (save (add_url E u F))"
  by (simp add: add_url_def Let_def written_shelf_update)

lemma written_shelf_mark_url_complete:
  "written_shelf E (save F) \<Longrightarrow> written_shelf E (save (mark_url_complete E u F))"
  by (simp add: mark_url_complete_def written_shelf_update)

lemma written_shelf_one_flag:
  assumes "written_shelf E shelf" and "(u, True) \<in> set (map snd shelf)"
  shows "(u, False) \<notin> set (map snd shelf)"
proof
  assume "(u, False) \<in> set (map snd shelf)"
  then obtain k2 where e2: "(k2, (u, False)) \<in> set shelf" by auto
  from assms(2) obtain k1 where e1: "(k1, (u, True)) \<in> set shelf" by auto
  from assms(1) have dist: "distinct (map fst shelf)" by (simp add: written_shelf_def)
  from assms(1) e1 e2 have "k1 = get_urlhash E u" "k2 = get_urlhash E u"
    unfolding written_shelf_def by auto
  with e1 e2 have m: "(k1, (u, True)) \<in> set shelf" "(k1, (u, False)) \<in> set shelf" by simp_all
  have "map_of shelf k1 = Some (u, True)" using dist m(1) by (rule map_of_is_SomeI)
  moreover have "map_of shelf k1 = Some (u, False)" using dist m(2) by (rule map_of_is_SomeI)
  ultimately have "Some (u, True) = Some (u, False)" by (rule trans [OF sym])
  then show False by simp
qed

text \<open>
  C2, amended. When the frontier is constructed without restart over a save file that is
  not empty, the constructor returns, and the URLs in the host queues are exactly the
  stored URLs with completed=false for which the call of \<open>is_valid\<close> made while loading
  returns true, the calls being made in the order of the file on the module state as
  the calls before left it. A URL with no entry completed=false is in no queue; and in a
  save file as the frontier writes it no URL stored with completed=true is in any queue.
\<close>

theorem restart_enqueues_pending_valid:
  assumes "shelf \<noteq> []"
  shows "\<exists>F g'. Frontier_init E cfg False (Some shelf) g = (Inr F, g') \<and>
           queued_urls F = set (pending_valid E (map snd shelf) g) \<and>
           (\<forall>u. (u, False) \<notin> set (map snd shelf) \<longrightarrow> u \<notin> queued_urls F) \<and>
           (written_shelf E shelf \<longrightarrow>
              (\<forall>u. (u, True) \<in> set (map snd shelf) \<longrightarrow> u \<notin> queued_urls F))"
proof -
  from restart_loads_pending_valid [OF assms, of E cfg g]
  obtain F g' where i: "Frontier_init E cfg False (Some shelf) g = (Inr F, g')"
      and q: "queued_urls F = set (pending_valid E (map snd shelf) g)"
      and n: "\<forall>u. (u, False) \<notin> set (map snd shelf) \<longrightarrow> u \<notin> queued_urls F"
    by blast
  have "written_shelf E shelf \<longrightarrow> (\<forall>u. (u, True) \<in> set (map snd shelf) \<longrightarrow> u \<notin> queued_urls F)"
    using n written_shelf_one_flag by blast
  with i q n show ?thesis by blast
qed

theorem restart_enqueues_pending_valid_witness:
  "shelf2 \<noteq> [] \<and> written_shelf test_env shelf2 \<and>
   (''https://ics.uci.edu/done'', True) \<in> set (map snd shelf2) \<and>
   (case fst (Frontier_init test_env polite_config False (Some shelf2) initial_state) of
      Inl e \<Rightarrow> False
    | Inr F \<Rightarrow> queued_urls F = {queried_url ''7''} \<and> ''https://ics.uci.edu/done'' \<notin> queued_urls F)"
proof -
  have ne: "shelf2 \<noteq> []" by (simp add: shelf2_def)
  have w: "written_shelf test_env shelf2"
    by (simp add: written_shelf_def shelf2_def test_env_def queried_url_def)
  have stored: "(''https://ics.uci.edu/done'', True) \<in> set (map snd shelf2)"
    by (simp add: shelf2_def)
  have d7: "digits ''7''" "''7'' \<noteq> []" "length ''7'' \<le> 200"
    by (simp_all add: is_digit_def code_of_def)
  have v: "is_valid test_env (queried_url ''7'') initial_state = (Inr True, visit_queried initial_state)"
    by (rule is_valid_Q_accepts [OF d7]) (simp_all add: initial_state_def)
  have pend: "pending_valid test_env (map snd shelf2) initial_state = [queried_url ''7'']"
    by (simp add: shelf2_def v)
  from restart_enqueues_pending_valid [OF ne, of test_env polite_config initial_state] pend w stored
  obtain F g' where "Frontier_init test_env polite_config False (Some shelf2) initial_state = (Inr F, g')"
      and "queued_urls F = {queried_url ''7''}" and "''https://ics.uci.edu/done'' \<notin> queued_urls F"
    by auto
  with ne w stored show ?thesis by simp
qed
section \<open>Duplicate pages in the scraper\<close>


lemma log_rejection_page_files [simp]:
  "page_files (log_rejection reason url save_sample s) = page_files s"
  by (simp add: log_rejection_def Let_def)

lemma log_processing_page_files [simp]:
  "page_files (log_processing url st reason n s) = page_files s"
  by (simp add: log_processing_def save_processing_log_def Let_def)

lemma is_duplicate_page_files [simp]:
  "page_files (snd (is_duplicate E text_content url s)) = page_files s"
  by (simp add: is_duplicate_def Let_def)










lemma log_processing_counters [simp]:
  "url_pattern_counter (log_processing url st reason n s) = url_pattern_counter s"
  "domain_path_counter (log_processing url st reason n s) = domain_path_counter s"
  by (simp_all add: log_processing_def save_processing_log_def Let_def)

lemma is_duplicate_counters [simp]:
  "url_pattern_counter (snd (is_duplicate E text_content url s)) = url_pattern_counter s"
  "domain_path_counter (snd (is_duplicate E text_content url s)) = domain_path_counter s"
  by (simp_all add: is_duplicate_def Let_def)



end
